(* ===== verification/Gateway_Prelude.thy ===== *)
theory Gateway_Prelude
  imports Complex_Main "HOL-Library.Word"
begin

text \<open>
  Shared vocabulary of the development: Go's clock and fixed-width integers, executions of a
  component guarded by a mutex, and the collection of rewrite rules that the theory of the
  circuit breaker fills and its clients use.

  A Go string is a sequence of bytes, which is what HOL's \<open>string\<close> is. Instants and durations
  are integers counting nanoseconds (\<^verbatim>\<open>time.Time\<close> and \<^verbatim>\<open>time.Duration\<close>). A Go
  \<^verbatim>\<open>int\<close> is 64 bits wide; where an operation can leave that range the model applies
  \<open>i64\<close>, the two's complement reading of the low 64 bits.
\<close>

named_theorems breaker_simps "one-step behaviour of the circuit breaker"

type_synonym time = int
type_synonym duration = int

section \<open>Fixed-width integers\<close>

definition maxInt :: int where
  "maxInt = 2 ^ 63 - 1"

definition i64 :: "int \<Rightarrow> int" where
  "i64 x = (x + 2 ^ 63) mod 2 ^ 64 - 2 ^ 63"

definition is_i64 :: "int \<Rightarrow> bool" where
  "is_i64 x \<longleftrightarrow> - (2 ^ 63) \<le> x \<and> x \<le> maxInt"

definition Nanosecond :: duration where "Nanosecond = 1"
definition Millisecond :: duration where "Millisecond = 1000000"
definition Second :: duration where "Second = 1000000000"
definition Minute :: duration where "Minute = 60 * Second"
definition Hour :: duration where "Hour = 60 * Minute"

lemmas duration_defs = Nanosecond_def Millisecond_def Second_def Minute_def Hour_def

lemma i64_range: "is_i64 (i64 x)"
  by (simp add: i64_def is_i64_def maxInt_def)

lemma i64_id [simp]: "is_i64 x \<Longrightarrow> i64 x = x"
  by (simp add: i64_def is_i64_def maxInt_def)

lemma i64_idem [simp]: "i64 (i64 x) = i64 x"
  by (simp add: i64_range)

lemma i64_add_i64 [simp]: "i64 (i64 x + y) = i64 (x + y)"
proof -
  have "(i64 x + y + 2 ^ 63) mod 2 ^ 64 = ((x + 2 ^ 63) mod 2 ^ 64 + y) mod (2 ^ 64 :: int)"
    by (simp add: i64_def)
  also have "\<dots> = (x + y + 2 ^ 63) mod 2 ^ 64"
    by (simp only: mod_add_left_eq) (simp add: algebra_simps)
  finally show ?thesis by (simp add: i64_def [of "i64 x + y"] i64_def [of "x + y"])
qed

lemma is_i64_between: "0 \<le> x \<Longrightarrow> x \<le> y \<Longrightarrow> is_i64 y \<Longrightarrow> is_i64 x"
  by (simp add: is_i64_def)

section \<open>Runs of a machine\<close>

text \<open>
  A component guarded by a mutex is a function \<open>step\<close> from an event and a state to a
  state; an execution, whatever the goroutines, is \<open>fold step es s\<close>. The locale lifts
  what one step keeps to every execution.
\<close>

locale invariant_machine =
  fixes step :: "'e \<Rightarrow> 's \<Rightarrow> 's"
    and inv :: "'s \<Rightarrow> bool"
  assumes step_inv: "inv s \<Longrightarrow> inv (step e s)"
begin

lemma run_inv: "inv s \<Longrightarrow> inv (fold step es s)"
  by (induction es arbitrary: s) (simp_all add: step_inv)

lemma run_prefix_inv: "inv s \<Longrightarrow> es = xs @ ys \<Longrightarrow> inv (fold step xs s)"
  by (simp add: run_inv)

end

lemma count_list_update:
  "i < length xs \<Longrightarrow>
   count_list (xs[i := x]) y + (if xs ! i = y then 1 else 0) = count_list xs y + (if x = y then 1 else 0)"
proof (induction xs arbitrary: i)
  case (Cons a xs)
  show ?case
  proof (cases i)
    case (Suc j)
    then show ?thesis using Cons.IH [of j] Cons.prems by (cases "a = y") simp_all
  qed simp
qed simp

end
