(* ===== verification/Gateway_Config.thy ===== *)
theory Gateway_Config
  imports Gateway_Prelude
begin

text \<open>
  \<^verbatim>\<open>internal/config\<close>: the configuration records of \<^verbatim>\<open>config.go\<close>, \<open>Load\<close>, and the
  validation and defaults of \<^verbatim>\<open>validate.go\<close>. Pointers that may be nil are options, errors
  are values of \<open>config_error\<close> (one constructor per message) and a function that changes
  the structure it gets a pointer to returns the changed record. Reading the file, the YAML
  decoder and the environment are parameters of \<open>Load\<close>. \<open>config_ok\<close> is what the rest of
  the gateway may rely on.
\<close>

section \<open>Records\<close>

record TelemetryConfig =
  MetricInterval :: duration
  TraceBatchTimeout :: duration
  LogBatchTimeout :: duration

record TransportConfig =
  MaxIdleConns :: int
  MaxIdleConnsPerHost :: int
  IdleConnTimeout :: duration
  DialTimeout :: duration
  TLSHandshakeTimeout :: duration

record RedisConfig =
  Addr :: string
  PoolSize :: int
  rc_DialTimeout :: duration
  ReadTimeout :: duration
  WriteTimeout :: duration
  TLS :: bool

record RateLimitConfig =
  Backend :: string
  rl_Rate :: real
  rl_Burst :: int
  CleanupInterval :: duration
  CleanupMaxIdle :: duration
  Redis :: RedisConfig

record CompressionConfig =
  Enabled :: bool
  MinBytes :: int

record HealthCheckConfig =
  Interval :: duration
  hc_Path :: string

record CBConfig =
  MaxFailures :: int
  Timeout :: duration

record ServiceRateLimitConfig =
  sr_Rate :: real
  sr_Burst :: int
  KeyBy :: string

record ServiceCacheConfig =
  TTL :: duration
  MaxEntries :: int
  MaxBytes :: int

record ServiceConfig =
  Name :: string
  Prefix :: string
  Upstreams :: "string list"
  Auth :: bool
  RequiredRoles :: "string list"
  sv_RateLimit :: "ServiceRateLimitConfig option"
  sv_Cache :: "ServiceCacheConfig option"

record GatewayConfig =
  Port :: int
  MaxBodyBytes :: int
  MaxHeaderBytes :: int
  MaxInFlight :: int
  Compression :: CompressionConfig
  RateLimit :: "RateLimitConfig option"
  HealthCheck :: HealthCheckConfig
  CircuitBreaker :: "CBConfig option"
  Transport :: TransportConfig
  Telemetry :: TelemetryConfig
  Services :: "ServiceConfig list"
  OTelEndpoint :: string
  JWTPublicKey :: string
  RedisPassword :: string

datatype config_error =
    NoServices
  | NameRequired nat
  | PrefixRequired string
  | UpstreamRequired string
  | DuplicateName string
  | DuplicatePrefix string string
  | RolesRequireAuth string
  | ServiceRate string
  | ServiceBurst string
  | JwtSubRequiresAuth string
  | BadKeyBy string string
  | RatePositive
  | BurstPositive
  | RedisAddrRequired
  | BadBackend string
  | MaxFailuresPositive
  | BreakerTimeoutPositive

section \<open>Validation\<close>

definition validateServiceRateLimit :: "ServiceConfig \<Rightarrow> config_error + ServiceConfig" where
  "validateServiceRateLimit svc =
     (case sv_RateLimit svc of
        None \<Rightarrow> Inr svc
      | Some rl \<Rightarrow>
          if sr_Rate rl \<le> 0 then Inl (ServiceRate (Name svc))
          else if sr_Burst rl \<le> 0 then Inl (ServiceBurst (Name svc))
          else if KeyBy rl = [] \<or> KeyBy rl = ''ip'' then
            Inr (svc\<lparr>sv_RateLimit := Some (rl\<lparr>KeyBy := ''ip''\<rparr>)\<rparr>)
          else if KeyBy rl = ''jwt_sub'' then
            (if \<not> Auth svc then Inl (JwtSubRequiresAuth (Name svc)) else Inr svc)
          else Inl (BadKeyBy (Name svc) (KeyBy rl)))"

definition applyServiceCacheDefaults :: "ServiceConfig \<Rightarrow> ServiceConfig" where
  "applyServiceCacheDefaults svc =
     (case sv_Cache svc of
        None \<Rightarrow> svc
      | Some cc \<Rightarrow>
          let cc = (if TTL cc \<le> 0 then cc\<lparr>TTL := 60 * Second\<rparr> else cc);
              cc = (if MaxEntries cc \<le> 0 then cc\<lparr>MaxEntries := 1024\<rparr> else cc);
              cc = (if MaxBytes cc \<le> 0 then cc\<lparr>MaxBytes := push_bit 20 16\<rparr> else cc)
          in svc\<lparr>sv_Cache := Some cc\<rparr>)"

text \<open>The loop over the services, with the maps \<open>seenName\<close> and \<open>seenPrefix\<close> as sets.\<close>

fun validate_services_loop ::
  "nat \<Rightarrow> string set \<Rightarrow> string set \<Rightarrow> ServiceConfig list \<Rightarrow> config_error + ServiceConfig list" where
  "validate_services_loop i seenName seenPrefix [] = Inr []"
| "validate_services_loop i seenName seenPrefix (svc # rest) =
     (if Name svc = [] then Inl (NameRequired i)
      else if Prefix svc = [] then Inl (PrefixRequired (Name svc))
      else if Upstreams svc = [] then Inl (UpstreamRequired (Name svc))
      else if Name svc \<in> seenName then Inl (DuplicateName (Name svc))
      else if Prefix svc \<in> seenPrefix then Inl (DuplicatePrefix (Name svc) (Prefix svc))
      else if RequiredRoles svc \<noteq> [] \<and> \<not> Auth svc then Inl (RolesRequireAuth (Name svc))
      else (case validateServiceRateLimit svc of
              Inl err \<Rightarrow> Inl err
            | Inr svc' \<Rightarrow>
                (case validate_services_loop (Suc i) (insert (Name svc) seenName)
                        (insert (Prefix svc) seenPrefix) rest of
                   Inl err \<Rightarrow> Inl err
                 | Inr rest' \<Rightarrow> Inr (applyServiceCacheDefaults svc' # rest'))))"

definition validateServices :: "GatewayConfig \<Rightarrow> config_error + GatewayConfig" where
  "validateServices cfg =
     (if Services cfg = [] then Inl NoServices
      else (case validate_services_loop 0 {} {} (Services cfg) of
              Inl err \<Rightarrow> Inl err
            | Inr svcs \<Rightarrow> Inr (cfg\<lparr>Services := svcs\<rparr>)))"

definition validateRateLimit :: "RateLimitConfig option \<Rightarrow> config_error + RateLimitConfig option" where
  "validateRateLimit rl =
     (case rl of
        None \<Rightarrow> Inr None
      | Some rl \<Rightarrow>
          if rl_Rate rl \<le> 0 then Inl RatePositive
          else if rl_Burst rl \<le> 0 then Inl BurstPositive
          else
            let rl = (if Backend rl = [] then rl\<lparr>Backend := ''memory''\<rparr> else rl);
                rest = (let rl = (if CleanupInterval rl \<le> 0 then rl\<lparr>CleanupInterval := 1 * Minute\<rparr> else rl);
                            rl = (if CleanupMaxIdle rl \<le> 0 then rl\<lparr>CleanupMaxIdle := 3 * Minute\<rparr> else rl)
                        in Inr (Some rl))
            in if Backend rl = ''memory'' then rest
               else if Backend rl = ''redis'' then
                 (if Addr (Redis rl) = [] then Inl RedisAddrRequired else rest)
               else Inl (BadBackend (Backend rl)))"

definition validateCircuitBreaker :: "CBConfig option \<Rightarrow> config_error option" where
  "validateCircuitBreaker cb =
     (case cb of
        None \<Rightarrow> None
      | Some cb \<Rightarrow>
          if MaxFailures cb \<le> 0 then Some MaxFailuresPositive
          else if Timeout cb \<le> 0 then Some BreakerTimeoutPositive
          else None)"

section \<open>Defaults\<close>

definition applyHealthCheckDefaults :: "HealthCheckConfig \<Rightarrow> HealthCheckConfig" where
  "applyHealthCheckDefaults hc =
     (let hc = (if hc_Path hc = [] then hc\<lparr>hc_Path := ''/healthz''\<rparr> else hc)
      in if Interval hc \<le> 0 then hc\<lparr>Interval := 5 * Second\<rparr> else hc)"

definition applyCompressionDefaults :: "CompressionConfig \<Rightarrow> CompressionConfig" where
  "applyCompressionDefaults cmp =
     (if Enabled cmp \<and> MinBytes cmp \<le> 0 then cmp\<lparr>MinBytes := 1024\<rparr> else cmp)"

definition applyServerLimitDefaults :: "GatewayConfig \<Rightarrow> GatewayConfig" where
  "applyServerLimitDefaults cfg =
     (let cfg = (if MaxBodyBytes cfg \<le> 0 then cfg\<lparr>MaxBodyBytes := push_bit 20 1\<rparr> else cfg)
      in if MaxHeaderBytes cfg \<le> 0 then cfg\<lparr>MaxHeaderBytes := push_bit 10 32\<rparr> else cfg)"

definition applyTelemetryDefaults :: "TelemetryConfig \<Rightarrow> TelemetryConfig" where
  "applyTelemetryDefaults t =
     (let t = (if MetricInterval t \<le> 0 then t\<lparr>MetricInterval := 10 * Second\<rparr> else t);
          t = (if TraceBatchTimeout t \<le> 0 then t\<lparr>TraceBatchTimeout := 5 * Second\<rparr> else t)
      in if LogBatchTimeout t \<le> 0 then t\<lparr>LogBatchTimeout := 1 * Second\<rparr> else t)"

definition applyTransportDefaults :: "TransportConfig \<Rightarrow> TransportConfig" where
  "applyTransportDefaults t =
     (let t = (if MaxIdleConns t \<le> 0 then t\<lparr>MaxIdleConns := 1000\<rparr> else t);
          t = (if MaxIdleConnsPerHost t \<le> 0 then t\<lparr>MaxIdleConnsPerHost := 200\<rparr> else t);
          t = (if IdleConnTimeout t \<le> 0 then t\<lparr>IdleConnTimeout := 90 * Second\<rparr> else t);
          t = (if DialTimeout t \<le> 0 then t\<lparr>DialTimeout := 5 * Second\<rparr> else t)
      in if TLSHandshakeTimeout t \<le> 0 then t\<lparr>TLSHandshakeTimeout := 5 * Second\<rparr> else t)"

definition validate :: "GatewayConfig \<Rightarrow> config_error + GatewayConfig" where
  "validate cfg =
     (case validateServices cfg of
        Inl err \<Rightarrow> Inl err
      | Inr cfg \<Rightarrow>
          (case validateRateLimit (RateLimit cfg) of
             Inl err \<Rightarrow> Inl err
           | Inr rl \<Rightarrow>
               let cfg = cfg\<lparr>RateLimit := rl\<rparr>
               in case validateCircuitBreaker (CircuitBreaker cfg) of
                    Some err \<Rightarrow> Inl err
                  | None \<Rightarrow>
                      let cfg = cfg\<lparr>HealthCheck := applyHealthCheckDefaults (HealthCheck cfg)\<rparr>;
                          cfg = cfg\<lparr>Compression := applyCompressionDefaults (Compression cfg)\<rparr>;
                          cfg = applyServerLimitDefaults cfg;
                          cfg = cfg\<lparr>Transport := applyTransportDefaults (Transport cfg)\<rparr>;
                          cfg = cfg\<lparr>Telemetry := applyTelemetryDefaults (Telemetry cfg)\<rparr>
                      in Inr cfg))"

text \<open>
  \<open>readFile\<close> is \<^verbatim>\<open>os.ReadFile\<close>, \<open>unmarshal\<close> the YAML decoder and \<open>getenv\<close> the process
  environment.
\<close>

datatype 'e load_error = ReadError 'e | ParseError 'e | ValidationError config_error

definition Load ::
  "(string \<Rightarrow> 'e + string) \<Rightarrow> (string \<Rightarrow> 'e + GatewayConfig) \<Rightarrow> (string \<Rightarrow> string) \<Rightarrow> string \<Rightarrow>
   'e load_error + GatewayConfig" where
  "Load readFile unmarshal getenv path =
     (case readFile path of
        Inl e \<Rightarrow> Inl (ReadError e)
      | Inr data \<Rightarrow>
          (case unmarshal data of
             Inl e \<Rightarrow> Inl (ParseError e)
           | Inr cfg \<Rightarrow>
               let cfg = (if Port cfg = 0 then cfg\<lparr>Port := 8080\<rparr> else cfg);
                   cfg = cfg\<lparr>OTelEndpoint := getenv ''OTEL_EXPORTER_OTLP_ENDPOINT''\<rparr>;
                   cfg = cfg\<lparr>JWTPublicKey := getenv ''JWT_PUBLIC_KEY_PATH''\<rparr>;
                   cfg = cfg\<lparr>RedisPassword := getenv ''REDIS_PASSWORD''\<rparr>
               in case validate cfg of
                    Inl e \<Rightarrow> Inl (ValidationError e)
                  | Inr cfg \<Rightarrow> Inr cfg))"

section \<open>What is accepted, and what comes out\<close>

text \<open>\<open>config_acceptable\<close> is the condition on a configuration as it was written.\<close>

definition service_rate_acceptable :: "ServiceConfig \<Rightarrow> bool" where
  "service_rate_acceptable svc \<longleftrightarrow>
     (case sv_RateLimit svc of None \<Rightarrow> True
      | Some rl \<Rightarrow> 0 < sr_Rate rl \<and> 0 < sr_Burst rl \<and>
          (KeyBy rl = [] \<or> KeyBy rl = ''ip'' \<or> KeyBy rl = ''jwt_sub'' \<and> Auth svc))"

definition service_acceptable :: "ServiceConfig \<Rightarrow> bool" where
  "service_acceptable svc \<longleftrightarrow>
     Name svc \<noteq> [] \<and> Prefix svc \<noteq> [] \<and> Upstreams svc \<noteq> [] \<and>
     (RequiredRoles svc = [] \<or> Auth svc) \<and> service_rate_acceptable svc"

definition rate_acceptable :: "RateLimitConfig option \<Rightarrow> bool" where
  "rate_acceptable rl \<longleftrightarrow>
     (case rl of None \<Rightarrow> True
      | Some rl \<Rightarrow> 0 < rl_Rate rl \<and> 0 < rl_Burst rl \<and>
          (Backend rl = [] \<or> Backend rl = ''memory'' \<or> Backend rl = ''redis'' \<and> Addr (Redis rl) \<noteq> []))"

definition breaker_acceptable :: "CBConfig option \<Rightarrow> bool" where
  "breaker_acceptable cb \<longleftrightarrow>
     (case cb of None \<Rightarrow> True | Some cb \<Rightarrow> 0 < MaxFailures cb \<and> 0 < Timeout cb)"

definition config_acceptable :: "GatewayConfig \<Rightarrow> bool" where
  "config_acceptable cfg \<longleftrightarrow>
     Services cfg \<noteq> [] \<and> list_all service_acceptable (Services cfg) \<and>
     distinct (map Name (Services cfg)) \<and> distinct (map Prefix (Services cfg)) \<and>
     rate_acceptable (RateLimit cfg) \<and> breaker_acceptable (CircuitBreaker cfg)"

text \<open>\<open>config_ok\<close> is the condition on a configuration the gateway runs with.\<close>

definition service_ok :: "ServiceConfig \<Rightarrow> bool" where
  "service_ok svc \<longleftrightarrow> service_acceptable svc \<and>
     (case sv_RateLimit svc of None \<Rightarrow> True | Some rl \<Rightarrow> KeyBy rl \<noteq> []) \<and>
     (case sv_Cache svc of None \<Rightarrow> True
      | Some cc \<Rightarrow> 0 < TTL cc \<and> 0 < MaxEntries cc \<and> 0 < MaxBytes cc)"

definition rate_ok :: "RateLimitConfig option \<Rightarrow> bool" where
  "rate_ok rl \<longleftrightarrow> rate_acceptable rl \<and>
     (case rl of None \<Rightarrow> True
      | Some rl \<Rightarrow> Backend rl \<noteq> [] \<and> 0 < CleanupInterval rl \<and> 0 < CleanupMaxIdle rl)"

definition transport_ok :: "TransportConfig \<Rightarrow> bool" where
  "transport_ok t \<longleftrightarrow>
     0 < MaxIdleConns t \<and> 0 < MaxIdleConnsPerHost t \<and> 0 < IdleConnTimeout t \<and>
     0 < DialTimeout t \<and> 0 < TLSHandshakeTimeout t"

definition telemetry_ok :: "TelemetryConfig \<Rightarrow> bool" where
  "telemetry_ok t \<longleftrightarrow> 0 < MetricInterval t \<and> 0 < TraceBatchTimeout t \<and> 0 < LogBatchTimeout t"

definition config_ok :: "GatewayConfig \<Rightarrow> bool" where
  "config_ok cfg \<longleftrightarrow>
     Services cfg \<noteq> [] \<and> list_all service_ok (Services cfg) \<and>
     distinct (map Name (Services cfg)) \<and> distinct (map Prefix (Services cfg)) \<and>
     rate_ok (RateLimit cfg) \<and> breaker_acceptable (CircuitBreaker cfg) \<and>
     hc_Path (HealthCheck cfg) \<noteq> [] \<and> 0 < Interval (HealthCheck cfg) \<and>
     (Enabled (Compression cfg) \<longrightarrow> 0 < MinBytes (Compression cfg)) \<and>
     0 < MaxBodyBytes cfg \<and> 0 < MaxHeaderBytes cfg \<and>
     transport_ok (Transport cfg) \<and> telemetry_ok (Telemetry cfg)"

section \<open>The steps of the validation\<close>

definition norm_service_rate :: "ServiceConfig \<Rightarrow> ServiceConfig" where
  "norm_service_rate svc =
     (case sv_RateLimit svc of None \<Rightarrow> svc
      | Some rl \<Rightarrow> if KeyBy rl = [] then svc\<lparr>sv_RateLimit := Some (rl\<lparr>KeyBy := ''ip''\<rparr>)\<rparr> else svc)"

definition norm_service :: "ServiceConfig \<Rightarrow> ServiceConfig" where
  "norm_service svc = applyServiceCacheDefaults (norm_service_rate svc)"

lemma validateServiceRateLimit_spec:
  "validateServiceRateLimit svc = Inr svc' \<longleftrightarrow>
     service_rate_acceptable svc \<and> svc' = norm_service_rate svc"
  by (cases "sv_RateLimit svc")
    (auto simp: validateServiceRateLimit_def service_rate_acceptable_def norm_service_rate_def)

lemma norm_service_fields [simp]:
  "Name (norm_service svc) = Name svc" "Prefix (norm_service svc) = Prefix svc"
  "Upstreams (norm_service svc) = Upstreams svc" "Auth (norm_service svc) = Auth svc"
  "RequiredRoles (norm_service svc) = RequiredRoles svc"
  by (auto simp: norm_service_def norm_service_rate_def applyServiceCacheDefaults_def Let_def
      split: option.split)

lemma norm_service_rate_fields [simp]:
  "sv_Cache (norm_service_rate svc) = sv_Cache svc"
  "sv_RateLimit (norm_service_rate svc) =
     map_option (\<lambda>rl. if KeyBy rl = [] then rl\<lparr>KeyBy := ''ip''\<rparr> else rl) (sv_RateLimit svc)"
  by (auto simp: norm_service_rate_def split: option.split)

lemma cache_defaults_fields [simp]:
  "sv_RateLimit (applyServiceCacheDefaults svc) = sv_RateLimit svc"
  by (auto simp: applyServiceCacheDefaults_def Let_def split: option.split)

lemma cache_defaults_ok:
  "case sv_Cache (applyServiceCacheDefaults svc) of None \<Rightarrow> True
   | Some cc \<Rightarrow> 0 < TTL cc \<and> 0 < MaxEntries cc \<and> 0 < MaxBytes cc"
  by (auto simp: applyServiceCacheDefaults_def Let_def duration_defs push_bit_eq_mult split: option.split)

lemma service_ok_norm: "service_acceptable svc \<Longrightarrow> service_ok (norm_service svc)"
  using cache_defaults_ok [of "norm_service_rate svc"]
  by (auto simp: service_ok_def service_acceptable_def service_rate_acceptable_def
      norm_service_def [of svc, symmetric] split: option.splits)
    (auto simp: norm_service_def split: if_splits)

lemma norm_service_id: "service_ok svc \<Longrightarrow> norm_service svc = svc"
  by (cases "sv_Cache svc"; cases "sv_RateLimit svc")
    (auto simp: service_ok_def norm_service_def norm_service_rate_def applyServiceCacheDefaults_def)

lemma validate_services_loop_spec:
  "validate_services_loop i N P svcs = Inr svcs' \<longleftrightarrow>
     list_all service_acceptable svcs \<and> distinct (map Name svcs) \<and> distinct (map Prefix svcs) \<and>
     Name ` set svcs \<inter> N = {} \<and> Prefix ` set svcs \<inter> P = {} \<and> svcs' = map norm_service svcs"
proof (induction svcs arbitrary: i N P svcs')
  case (Cons svc rest)
  show ?case
  proof (cases "service_acceptable svc \<and> Name svc \<notin> N \<and> Prefix svc \<notin> P")
    case True
    then have rl: "validateServiceRateLimit svc = Inr (norm_service_rate svc)"
      by (simp add: validateServiceRateLimit_spec service_acceptable_def)
    have "validate_services_loop i N P (svc # rest) = Inr svcs' \<longleftrightarrow>
        (\<exists>rest'. validate_services_loop (Suc i) (insert (Name svc) N) (insert (Prefix svc) P) rest
           = Inr rest' \<and> svcs' = norm_service svc # rest')"
      using True by (auto simp: rl service_acceptable_def norm_service_def split: sum.split)
    also have "\<dots> \<longleftrightarrow> list_all service_acceptable rest \<and> distinct (map Name rest) \<and>
        distinct (map Prefix rest) \<and> Name ` set rest \<inter> insert (Name svc) N = {} \<and>
        Prefix ` set rest \<inter> insert (Prefix svc) P = {} \<and>
        svcs' = norm_service svc # map norm_service rest"
      unfolding Cons.IH by blast
    finally show ?thesis using True by auto
  next
    case False
    then have "validateServiceRateLimit svc \<noteq> Inr x" if "Name svc \<noteq> []" "Prefix svc \<noteq> []"
      "Upstreams svc \<noteq> []" "RequiredRoles svc = [] \<or> Auth svc" "Name svc \<notin> N" "Prefix svc \<notin> P" for x
      using that by (auto simp: validateServiceRateLimit_spec service_acceptable_def)
    then have "validate_services_loop i N P (svc # rest) \<noteq> Inr svcs'"
      by (auto split: sum.splits)
    then show ?thesis using False by auto
  qed
qed auto

definition norm_rate :: "RateLimitConfig \<Rightarrow> RateLimitConfig" where
  "norm_rate rl = rl\<lparr>Backend := (if Backend rl = [] then ''memory'' else Backend rl),
     CleanupInterval := (if CleanupInterval rl \<le> 0 then Minute else CleanupInterval rl),
     CleanupMaxIdle := (if CleanupMaxIdle rl \<le> 0 then 3 * Minute else CleanupMaxIdle rl)\<rparr>"

lemma validateRateLimit_spec:
  "validateRateLimit rl = Inr rl' \<longleftrightarrow> rate_acceptable rl \<and> rl' = map_option norm_rate rl"
proof (cases rl)
  case (Some r)
  then show ?thesis
    by (cases r) (auto simp: validateRateLimit_def rate_acceptable_def norm_rate_def Let_def)
qed (auto simp: validateRateLimit_def rate_acceptable_def)

lemma validateCircuitBreaker_spec: "validateCircuitBreaker cb = None \<longleftrightarrow> breaker_acceptable cb"
  by (cases cb) (auto simp: validateCircuitBreaker_def breaker_acceptable_def)

lemma rate_ok_norm: "rate_acceptable rl \<Longrightarrow> rate_ok (map_option norm_rate rl)"
  by (cases rl) (auto simp: rate_ok_def rate_acceptable_def norm_rate_def duration_defs)

lemma norm_rate_id: "rate_ok (Some rl) \<Longrightarrow> norm_rate rl = rl"
  by (cases rl) (simp add: rate_ok_def norm_rate_def)

lemma transport_defaults:
  "transport_ok (applyTransportDefaults t)" "transport_ok t \<Longrightarrow> applyTransportDefaults t = t"
  by (cases t, simp add: transport_ok_def applyTransportDefaults_def Let_def duration_defs)+

lemma telemetry_defaults:
  "telemetry_ok (applyTelemetryDefaults t)" "telemetry_ok t \<Longrightarrow> applyTelemetryDefaults t = t"
  by (cases t, simp add: telemetry_ok_def applyTelemetryDefaults_def Let_def duration_defs)+

lemma health_defaults:
  "hc_Path (applyHealthCheckDefaults hc) \<noteq> [] \<and> 0 < Interval (applyHealthCheckDefaults hc)"
  "hc_Path hc \<noteq> [] \<Longrightarrow> 0 < Interval hc \<Longrightarrow> applyHealthCheckDefaults hc = hc"
  by (cases hc, simp add: applyHealthCheckDefaults_def Let_def duration_defs)+

lemma compression_defaults:
  "Enabled (applyCompressionDefaults cmp) \<longrightarrow> 0 < MinBytes (applyCompressionDefaults cmp)"
  "(Enabled cmp \<longrightarrow> 0 < MinBytes cmp) \<Longrightarrow> applyCompressionDefaults cmp = cmp"
  by (auto simp: applyCompressionDefaults_def)

text \<open>What a successful validation turns a configuration into.\<close>

definition norm_config :: "GatewayConfig \<Rightarrow> GatewayConfig" where
  "norm_config cfg = cfg
     \<lparr>MaxBodyBytes := (if MaxBodyBytes cfg \<le> 0 then 1048576 else MaxBodyBytes cfg),
      MaxHeaderBytes := (if MaxHeaderBytes cfg \<le> 0 then 32768 else MaxHeaderBytes cfg),
      Compression := applyCompressionDefaults (Compression cfg),
      RateLimit := map_option norm_rate (RateLimit cfg),
      HealthCheck := applyHealthCheckDefaults (HealthCheck cfg),
      Transport := applyTransportDefaults (Transport cfg),
      Telemetry := applyTelemetryDefaults (Telemetry cfg),
      Services := map norm_service (Services cfg)\<rparr>"

lemma validateServices_spec:
  "validateServices cfg = Inr cfg' \<longleftrightarrow>
     Services cfg \<noteq> [] \<and> list_all service_acceptable (Services cfg) \<and>
     distinct (map Name (Services cfg)) \<and> distinct (map Prefix (Services cfg)) \<and>
     cfg' = cfg\<lparr>Services := map norm_service (Services cfg)\<rparr>"
proof (cases "validate_services_loop 0 {} {} (Services cfg)")
  case (Inl err)
  with validate_services_loop_spec [of 0 "{}" "{}" "Services cfg" "map norm_service (Services cfg)"]
  show ?thesis by (auto simp: validateServices_def)
next
  case (Inr svcs)
  with validate_services_loop_spec [of 0 "{}" "{}" "Services cfg" svcs]
  show ?thesis by (auto simp: validateServices_def)
qed

lemma norm_config_steps:
  "(let cfg = cfg\<lparr>Services := map norm_service (Services cfg)\<rparr>\<lparr>RateLimit := map_option norm_rate (RateLimit cfg)\<rparr>;
        cfg = cfg\<lparr>HealthCheck := applyHealthCheckDefaults (HealthCheck cfg)\<rparr>;
        cfg = cfg\<lparr>Compression := applyCompressionDefaults (Compression cfg)\<rparr>;
        cfg = applyServerLimitDefaults cfg;
        cfg = cfg\<lparr>Transport := applyTransportDefaults (Transport cfg)\<rparr>;
        cfg = cfg\<lparr>Telemetry := applyTelemetryDefaults (Telemetry cfg)\<rparr>
    in cfg) = norm_config cfg"
  by (cases cfg) (simp add: norm_config_def applyServerLimitDefaults_def Let_def push_bit_eq_mult)

lemma validate_spec:
  "validate cfg = Inr cfg' \<longleftrightarrow> config_acceptable cfg \<and> cfg' = norm_config cfg"
proof -
  have "validate cfg = Inr cfg' \<longleftrightarrow>
      (\<exists>c rl. validateServices cfg = Inr c \<and> validateRateLimit (RateLimit c) = Inr rl \<and>
         validateCircuitBreaker (CircuitBreaker c) = None \<and>
         cfg' = (let cfg = c\<lparr>RateLimit := rl\<rparr>;
              cfg = cfg\<lparr>HealthCheck := applyHealthCheckDefaults (HealthCheck cfg)\<rparr>;
              cfg = cfg\<lparr>Compression := applyCompressionDefaults (Compression cfg)\<rparr>;
              cfg = applyServerLimitDefaults cfg;
              cfg = cfg\<lparr>Transport := applyTransportDefaults (Transport cfg)\<rparr>;
              cfg = cfg\<lparr>Telemetry := applyTelemetryDefaults (Telemetry cfg)\<rparr>
            in cfg))"
    by (auto simp: validate_def Let_def split: sum.splits option.splits)
  then show ?thesis
    by (auto simp: validateServices_spec validateRateLimit_spec validateCircuitBreaker_spec
        config_acceptable_def norm_config_steps [symmetric])
qed

lemma norm_config_ok: "config_acceptable cfg \<Longrightarrow> config_ok (norm_config cfg)"
  by (simp add: config_acceptable_def config_ok_def norm_config_def service_ok_norm rate_ok_norm
      list.pred_map transport_defaults telemetry_defaults health_defaults compression_defaults
      list_all_iff comp_def)

lemma norm_config_id:
  assumes "config_ok cfg"
  shows "norm_config cfg = cfg"
proof -
  have "map norm_service (Services cfg) = Services cfg"
    using assms by (intro map_idI) (auto simp: config_ok_def list_all_iff norm_service_id)
  moreover have "map_option norm_rate (RateLimit cfg) = RateLimit cfg"
    using assms by (cases "RateLimit cfg") (auto simp: config_ok_def norm_rate_id)
  ultimately show ?thesis
    using assms by (cases cfg) (simp add: norm_config_def config_ok_def transport_defaults
        telemetry_defaults health_defaults compression_defaults)
qed

lemma config_ok_acceptable: "config_ok cfg \<Longrightarrow> config_acceptable cfg"
  by (auto simp: config_ok_def config_acceptable_def list_all_iff service_ok_def rate_ok_def)

definition example_service :: ServiceConfig where
  "example_service = \<lparr>Name = ''orders'', Prefix = ''/api/orders'', Upstreams = [''http://o:1''],
     Auth = True, RequiredRoles = [''admin''],
     sv_RateLimit = Some \<lparr>sr_Rate = 2, sr_Burst = 4, KeyBy = ''jwt_sub''\<rparr>,
     sv_Cache = Some \<lparr>TTL = 0, MaxEntries = 0, MaxBytes = 0\<rparr>\<rparr>"

definition example_config :: GatewayConfig where
  "example_config = \<lparr>Port = 0, MaxBodyBytes = 0, MaxHeaderBytes = 0, MaxInFlight = 0,
     Compression = \<lparr>Enabled = True, MinBytes = 0\<rparr>, RateLimit = None,
     HealthCheck = \<lparr>Interval = 0, hc_Path = []\<rparr>, CircuitBreaker = None,
     Transport = \<lparr>MaxIdleConns = 0, MaxIdleConnsPerHost = 0, IdleConnTimeout = 0, DialTimeout = 0,
       TLSHandshakeTimeout = 0\<rparr>,
     Telemetry = \<lparr>MetricInterval = 0, TraceBatchTimeout = 0, LogBatchTimeout = 0\<rparr>,
     Services = [example_service], OTelEndpoint = [], JWTPublicKey = [], RedisPassword = []\<rparr>"

lemma example_config_acceptable: "config_acceptable example_config"
  by (simp add: config_acceptable_def example_config_def example_service_def service_acceptable_def
      service_rate_acceptable_def rate_acceptable_def breaker_acceptable_def)

definition loaded_example :: GatewayConfig where
  "loaded_example = norm_config (example_config\<lparr>Port := 8080, OTelEndpoint := ''env'',
     JWTPublicKey := ''env'', RedisPassword := ''env''\<rparr>)"

lemma example_Load:
  "Load (\<lambda>p. Inr p :: unit + string) (\<lambda>_. Inr example_config) (\<lambda>_. ''env'') ''gateway.yaml'' = Inr loaded_example"
proof -
  have "config_acceptable (example_config\<lparr>Port := 8080, OTelEndpoint := ''env'',
      JWTPublicKey := ''env'', RedisPassword := ''env''\<rparr>)"
    using example_config_acceptable by (simp add: config_acceptable_def)
  then have "validate (example_config\<lparr>Port := 8080, OTelEndpoint := ''env'',
      JWTPublicKey := ''env'', RedisPassword := ''env''\<rparr>) = Inr loaded_example"
    by (simp add: validate_spec loaded_example_def)
  then show ?thesis by (simp add: Load_def Let_def) (simp add: example_config_def)
qed

section \<open>Properties\<close>




text \<open>
  The validation only fills in what was left open. A configuration it accepts and that
  already is well formed comes back unchanged, and conversely; so validating twice is the same
  as validating once.
\<close>
lemma validate_fixpoints: "validate cfg = Inr cfg \<longleftrightarrow> config_ok cfg"
proof
  show "config_ok cfg" if "validate cfg = Inr cfg"
    using that norm_config_ok [of cfg] by (simp add: validate_spec)
next
  show "validate cfg = Inr cfg" if "config_ok cfg"
    using that by (simp add: validate_spec config_ok_acceptable norm_config_id)
qed

end
