(* ===== verification/Sync_Map.thy ===== *)
theory Sync_Map
  imports Gateway_Prelude "HOL-Library.AList"
begin

text \<open>
  Go's \<^verbatim>\<open>sync.Map\<close>, as far as the health checker and the in-memory rate limiter use it:
  each method is atomic. A map is a list of key-value pairs with distinct keys; the locale
  \<open>sync_map\<close> states what a client may rely on, and is interpreted on that representation.
\<close>

type_synonym ('k, 'v) smap = "('k \<times> 'v) list"

definition sm_empty :: "('k, 'v) smap" where
  "sm_empty = []"

definition sm_Load :: "('k, 'v) smap \<Rightarrow> 'k \<Rightarrow> 'v option" where
  "sm_Load m k = map_of m k"

definition sm_Store :: "'k \<Rightarrow> 'v \<Rightarrow> ('k, 'v) smap \<Rightarrow> ('k, 'v) smap" where
  "sm_Store k v m = AList.update k v m"

definition sm_Delete :: "'k \<Rightarrow> ('k, 'v) smap \<Rightarrow> ('k, 'v) smap" where
  "sm_Delete k m = AList.delete k m"

text \<open>\<open>LoadOrStore\<close> returns the value that is in the map afterwards and whether it was there before.\<close>

definition sm_LoadOrStore :: "'k \<Rightarrow> 'v \<Rightarrow> ('k, 'v) smap \<Rightarrow> ('v \<times> bool) \<times> ('k, 'v) smap" where
  "sm_LoadOrStore k v m =
     (case sm_Load m k of Some w \<Rightarrow> ((w, True), m) | None \<Rightarrow> ((v, False), sm_Store k v m))"

definition sm_inv :: "('k, 'v) smap \<Rightarrow> bool" where
  "sm_inv m \<longleftrightarrow> distinct (map fst m)"

locale sync_map =
  fixes empty :: "'m"
    and load :: "'m \<Rightarrow> 'k \<Rightarrow> 'v option"
    and store :: "'k \<Rightarrow> 'v \<Rightarrow> 'm \<Rightarrow> 'm"
    and delete :: "'k \<Rightarrow> 'm \<Rightarrow> 'm"
    and invar :: "'m \<Rightarrow> bool"
  assumes load_empty: "load empty k = None"
    and load_store: "load (store k v m) k' = (if k' = k then Some v else load m k')"
    and load_delete: "load (delete k m) k' = (if k' = k then None else load m k')"
    and invar_empty: "invar empty"
    and invar_store: "invar m \<Longrightarrow> invar (store k v m)"
    and invar_delete: "invar m \<Longrightarrow> invar (delete k m)"
begin

text \<open>
  Storing a value computed from the key alone: the order of the stores does not show, and
  each key holds the value computed from it.
\<close>

lemma load_fold_store:
  "load (fold (\<lambda>k. store k (f k)) ks m) k = (if k \<in> set ks then Some (f k) else load m k)"
  by (induction ks arbitrary: m) (auto simp: load_store)

lemma load_fold_store_permute:
  "set ks = set ks' \<Longrightarrow>
   load (fold (\<lambda>k. store k (f k)) ks m) = load (fold (\<lambda>k. store k (f k)) ks' m)"
  by (rule ext) (simp add: load_fold_store)

lemma load_fold_delete:
  "load (fold delete ks m) k = (if k \<in> set ks then None else load m k)"
  by (induction ks arbitrary: m) (auto simp: load_delete)

lemma invar_fold_delete: "invar m \<Longrightarrow> invar (fold delete ks m)"
  by (induction ks arbitrary: m) (simp_all add: invar_delete)

end

interpretation smap: sync_map sm_empty sm_Load sm_Store sm_Delete sm_inv
  by unfold_locales
    (simp_all add: sm_empty_def sm_Load_def sm_Store_def sm_Delete_def sm_inv_def
      update_conv' delete_conv' distinct_update distinct_delete)

lemma sm_LoadOrStore_value:
  "fst (fst (sm_LoadOrStore k v m)) = (case sm_Load m k of Some w \<Rightarrow> w | None \<Rightarrow> v)"
  by (simp add: sm_LoadOrStore_def split: option.split)

lemma sm_Load_LoadOrStore:
  "sm_Load (snd (sm_LoadOrStore k v m)) k' =
     (if k' = k then Some (fst (fst (sm_LoadOrStore k v m))) else sm_Load m k')"
  by (simp add: sm_LoadOrStore_def smap.load_store split: option.split)

end
