(* ===== verification/Health_Checker.thy ===== *)
theory Health_Checker
  imports Sync_Map "HOL-Library.Multiset"
begin

text \<open>
  \<^verbatim>\<open>internal/health/checker.go\<close>. The HTTP probe is the environment of the checker: a
  function from the probed URL to what happened (the request could not be built, the round
  trip failed, or a response with a status arrived). \<open>checkAll\<close> starts one goroutine per
  URL and waits for all of them, so its effect is that of the stores in their completion
  order, which is an argument of the model.
\<close>

section \<open>State and operations\<close>

datatype probe_outcome = NewRequestError | DoError | Responded int

record checker =
  ck_urls :: "string list"
  ck_status :: "(string, bool) smap"
  ck_interval :: duration
  ck_path :: string
  ck_clientTimeout :: duration

datatype health_error = NoHealthyAfterProbe

definition NewChecker :: "string list \<Rightarrow> duration \<Rightarrow> string \<Rightarrow> checker" where
  "NewChecker urls interval path =
     \<lparr>ck_urls = urls, ck_status = sm_empty, ck_interval = interval, ck_path = path,
      ck_clientTimeout = 2 * Second\<rparr>"

definition check_url :: "(string \<Rightarrow> probe_outcome) \<Rightarrow> string \<Rightarrow> checker \<Rightarrow> checker" where
  "check_url probe url c =
     (case probe (url @ ck_path c) of
        NewRequestError \<Rightarrow> c\<lparr>ck_status := sm_Store url False (ck_status c)\<rparr>
      | DoError \<Rightarrow> c\<lparr>ck_status := sm_Store url False (ck_status c)\<rparr>
      | Responded code \<Rightarrow>
          if code \<noteq> 200 then c\<lparr>ck_status := sm_Store url False (ck_status c)\<rparr>
          else c\<lparr>ck_status := sm_Store url True (ck_status c)\<rparr>)"

definition IsHealthy :: "checker \<Rightarrow> string \<Rightarrow> bool" where
  "IsHealthy c url = (case sm_Load (ck_status c) url of None \<Rightarrow> False | Some b \<Rightarrow> b)"

text \<open>\<open>order\<close> is the order in which the goroutines, one per URL, store their result.\<close>

definition checkAll ::
  "(string \<Rightarrow> probe_outcome) \<Rightarrow> string list \<Rightarrow> checker \<Rightarrow> checker" where
  "checkAll probe order c = fold (check_url probe) order c"

definition Probe ::
  "(string \<Rightarrow> probe_outcome) \<Rightarrow> string list \<Rightarrow> checker \<Rightarrow> health_error option \<times> checker" where
  "Probe probe order c =
     (let c = checkAll probe order c
      in if list_ex (IsHealthy c) (ck_urls c) then (None, c) else (Some NoHealthyAfterProbe, c))"

text \<open>
  The polling goroutine receives from the ticker and from the context's done channel; it
  returns at the first \<open>CtxDone\<close>. A tick carries the answers of that round.
\<close>

datatype poll_event = Tick "string \<Rightarrow> probe_outcome" "string list" | CtxDone

fun poll_loop :: "poll_event list \<Rightarrow> checker \<Rightarrow> checker" where
  "poll_loop [] c = c"
| "poll_loop (Tick probe order # evs) c = poll_loop evs (checkAll probe order c)"
| "poll_loop (CtxDone # evs) c = c"

definition Start ::
  "(string \<Rightarrow> probe_outcome) \<Rightarrow> string list \<Rightarrow> poll_event list \<Rightarrow> checker \<Rightarrow> checker" where
  "Start probe order evs c = poll_loop evs (checkAll probe order c)"

section \<open>Laws\<close>

abbreviation answers_ok :: "(string \<Rightarrow> probe_outcome) \<Rightarrow> checker \<Rightarrow> string \<Rightarrow> bool" where
  "answers_ok probe c url \<equiv> probe (url @ ck_path c) = Responded 200"

lemma check_url_store:
  "check_url probe url c =
     c\<lparr>ck_status := sm_Store url (answers_ok probe c url) (ck_status c)\<rparr>"
  by (simp add: check_url_def split: probe_outcome.split)

lemma checkAll_eq:
  "checkAll probe order c =
     c\<lparr>ck_status := fold (\<lambda>u. sm_Store u (answers_ok probe c u)) order (ck_status c)\<rparr>"
  unfolding checkAll_def
  by (induction order arbitrary: c) (simp_all add: check_url_store)

lemma checkAll_fields [simp]:
  "ck_urls (checkAll probe order c) = ck_urls c"
  "ck_path (checkAll probe order c) = ck_path c"
  by (simp_all add: checkAll_eq)

lemma IsHealthy_checkAll:
  "IsHealthy (checkAll probe order c) u =
     (if u \<in> set order then answers_ok probe c u else IsHealthy c u)"
  by (simp add: IsHealthy_def checkAll_eq smap.load_fold_store)

lemma IsHealthy_NewChecker [simp]: "\<not> IsHealthy (NewChecker urls iv path) u"
  by (simp add: IsHealthy_def NewChecker_def smap.load_empty)

lemma set_of_completion: "mset order = mset urls \<Longrightarrow> set order = set urls"
  by (rule mset_eq_setD)

lemma poll_loop_fields [simp]:
  "ck_urls (poll_loop evs c) = ck_urls c" "ck_path (poll_loop evs c) = ck_path c"
  by (induction evs c rule: poll_loop.induct) simp_all

lemma poll_loop_append_Tick:
  "CtxDone \<notin> set evs \<Longrightarrow>
   poll_loop (evs @ [Tick probe order]) c = checkAll probe order (poll_loop evs c)"
  by (induction evs c rule: poll_loop.induct) simp_all

lemma poll_loop_done: "poll_loop (evs @ CtxDone # evs') c = poll_loop evs c"
  by (induction evs c rule: poll_loop.induct) simp_all

section \<open>Properties\<close>

text \<open>
  The startup probe succeeds exactly when some configured upstream answered its health
  request with 200, whatever order the concurrent checks finish in and whatever the checker
  had recorded before; afterwards the healthy upstreams of the service are those that answered 200.
\<close>
lemma Probe_ok_iff:
  assumes "mset order = mset (ck_urls c)"
  shows "(fst (Probe probe order c) = None \<longleftrightarrow> (\<exists>u\<in>set (ck_urls c). answers_ok probe c u)) \<and>
         filter (IsHealthy (snd (Probe probe order c))) (ck_urls c) =
         filter (answers_ok probe c) (ck_urls c)"
  using set_of_completion [OF assms]
  by (auto simp: Probe_def Let_def list_ex_iff IsHealthy_checkAll intro: filter_cong)

text \<open>
  While polling runs, an upstream is in rotation exactly as its last completed check
  says; and once the context is done nothing the environment answers changes the status any more.
\<close>
lemma polling_tracks_last_check:
  assumes "mset order = mset (ck_urls c)" and "u \<in> set (ck_urls c)" and "CtxDone \<notin> set evs"
  shows "IsHealthy (Start p0 o0 (evs @ Tick probe order # CtxDone # later) c) u
           \<longleftrightarrow> answers_ok probe c u"
proof -
  have "poll_loop (evs @ Tick probe order # CtxDone # later) c' =
        checkAll probe order (poll_loop evs c')" for c'
    using poll_loop_done [of "evs @ [Tick probe order]" later c']
    by (simp add: poll_loop_append_Tick [OF assms(3)])
  then show ?thesis
    using assms(2) set_of_completion [OF assms(1)] by (simp add: Start_def IsHealthy_checkAll)
qed

end
