(* ===== verification/Rate_Limit.thy ===== *)
theory Rate_Limit
  imports Sync_Map
begin

text \<open>
  \<^verbatim>\<open>internal/ratelimit/limiter.go\<close> and \<^verbatim>\<open>internal/ratelimit/redis.go\<close>.

  The in-memory limiter keeps one \<^verbatim>\<open>rate.Limiter\<close> of \<^verbatim>\<open>golang.org/x/time/rate\<close> per key.
  That package is not part of the repository, so its constructor \<open>lim_new\<close> and its
  \<open>Allow\<close> method \<open>lim_allow\<close> are arguments of the definitions. Limiters are heap
  objects: the map holds their address, and \<open>Allow\<close> copies the address into a new map entry.

  The Redis limiter runs a Lua script that is part of the repository; the script is modelled
  in full, with Lua's floating-point numbers as reals, on a Redis database that maps a key to
  its bucket and the instant (in the server's milliseconds) at which the key expires.
\<close>

section \<open>The in-memory limiter\<close>

record mem_entry =
  en_limiter :: nat
  en_lastSeen :: time

record 'l mem_limiter =
  ml_entries :: "(string, mem_entry) smap"
  ml_heap :: "nat \<Rightarrow> 'l"
  ml_next :: nat
  ml_r :: real
  ml_b :: int
  ml_cleanupInterval :: duration
  ml_cleanupMaxIdle :: duration

definition NewMemoryLimiter ::
  "(nat \<Rightarrow> 'l) \<Rightarrow> string \<Rightarrow> real \<Rightarrow> int \<Rightarrow> duration \<Rightarrow> duration \<Rightarrow> 'l mem_limiter" where
  "NewMemoryLimiter heap prefix r b cleanupInterval cleanupMaxIdle =
     \<lparr>ml_entries = sm_empty, ml_heap = heap, ml_next = 0, ml_r = r, ml_b = b,
      ml_cleanupInterval = cleanupInterval, ml_cleanupMaxIdle = cleanupMaxIdle\<rparr>"

text \<open>\<open>limiter_Allow a\<close> calls the method \<open>Allow\<close> of the limiter at address \<open>a\<close>.\<close>

definition limiter_Allow ::
  "(time \<Rightarrow> 'l \<Rightarrow> bool \<times> 'l) \<Rightarrow> time \<Rightarrow> nat \<Rightarrow> 'l mem_limiter \<Rightarrow> bool \<times> 'l mem_limiter" where
  "limiter_Allow lim_allow now a ml =
     (let (ok, l) = lim_allow now (ml_heap ml a) in (ok, ml\<lparr>ml_heap := (ml_heap ml)(a := l)\<rparr>))"

definition allow_slow_path ::
  "(real \<Rightarrow> int \<Rightarrow> 'l) \<Rightarrow> (time \<Rightarrow> 'l \<Rightarrow> bool \<times> 'l) \<Rightarrow> time \<Rightarrow> string \<Rightarrow>
   'l mem_limiter \<Rightarrow> bool \<times> 'l mem_limiter" where
  "allow_slow_path lim_new lim_allow now key ml =
     (let a = ml_next ml;
          ml = ml\<lparr>ml_heap := (ml_heap ml)(a := lim_new (ml_r ml) (ml_b ml)), ml_next := Suc a\<rparr>;
          newEntry = \<lparr>en_limiter = a, en_lastSeen = now\<rparr>;
          ((actual, loaded), es) = sm_LoadOrStore key newEntry (ml_entries ml);
          ml = ml\<lparr>ml_entries := es\<rparr>
      in if loaded then limiter_Allow lim_allow now (en_limiter actual) ml
         else limiter_Allow lim_allow now (en_limiter newEntry) ml)"

definition memory_Allow ::
  "(real \<Rightarrow> int \<Rightarrow> 'l) \<Rightarrow> (time \<Rightarrow> 'l \<Rightarrow> bool \<times> 'l) \<Rightarrow> time \<Rightarrow> string \<Rightarrow>
   'l mem_limiter \<Rightarrow> ('e + bool) \<times> 'l mem_limiter" where
  "memory_Allow lim_new lim_allow now key ml =
     (case sm_Load (ml_entries ml) key of
        Some e \<Rightarrow>
          (let ml = ml\<lparr>ml_entries := sm_Store key \<lparr>en_limiter = en_limiter e, en_lastSeen = now\<rparr> (ml_entries ml)\<rparr>;
               (ok, ml) = limiter_Allow lim_allow now (en_limiter e) ml
           in (Inr ok, ml))
      | None \<Rightarrow> (let (ok, ml) = allow_slow_path lim_new lim_allow now key ml in (Inr ok, ml)))"

definition idle_keys :: "time \<Rightarrow> 'l mem_limiter \<Rightarrow> string list" where
  "idle_keys now ml =
     map fst (filter (\<lambda>(k, e). now - en_lastSeen e > ml_cleanupMaxIdle ml) (ml_entries ml))"

definition cleanup :: "time \<Rightarrow> 'l mem_limiter \<Rightarrow> 'l mem_limiter" where
  "cleanup now ml = ml\<lparr>ml_entries := fold sm_Delete (idle_keys now ml) (ml_entries ml)\<rparr>"

definition memory_Len :: "'l mem_limiter \<Rightarrow> nat" where
  "memory_Len ml = length (ml_entries ml)"

section \<open>The Redis limiter\<close>

record bucket =
  bk_tokens :: real
  bk_ts :: int

text \<open>
  The Lua script: \<open>bucket\<close> is what \<open>HMGET\<close> finds, \<open>None\<close> for a missing key. The
  result is the script's return value, the bucket \<open>HSET\<close> stores and the argument of
  \<open>PEXPIRE\<close>.
\<close>

definition limiterLuaScript :: "real \<Rightarrow> int \<Rightarrow> int \<Rightarrow> bucket option \<Rightarrow> int \<times> bucket \<times> int" where
  "limiterLuaScript rate burst now_ms bucket =
     (let tokens = (case bucket of None \<Rightarrow> real_of_int burst | Some b \<Rightarrow> bk_tokens b);
          last = (case bucket of None \<Rightarrow> now_ms | Some b \<Rightarrow> bk_ts b);
          elapsed = real_of_int (max 0 (now_ms - last)) / 1000;
          tokens = min (real_of_int burst) (tokens + elapsed * rate);
          (tokens, allowed) = (if tokens \<ge> 1 then (tokens - 1, 1) else (tokens, 0))
      in (allowed, \<lparr>bk_tokens = tokens, bk_ts = now_ms\<rparr>,
          \<lceil>real_of_int burst / rate * 1000\<rceil> + 1000))"

type_synonym redis_db = "string \<rightharpoonup> bucket \<times> int"

definition redis_live :: "int \<Rightarrow> redis_db \<Rightarrow> string \<Rightarrow> bucket option" where
  "redis_live srv_ms db key =
     (case db key of None \<Rightarrow> None | Some (b, expires) \<Rightarrow> if srv_ms \<ge> expires then None else Some b)"

definition redis_eval :: "int \<Rightarrow> real \<Rightarrow> int \<Rightarrow> int \<Rightarrow> string \<Rightarrow> redis_db \<Rightarrow> int \<times> redis_db" where
  "redis_eval srv_ms rate burst now_ms key db =
     (let (allowed, b, ttl) = limiterLuaScript rate burst now_ms (redis_live srv_ms db key)
      in (allowed, db(key \<mapsto> (b, srv_ms + ttl))))"

record redis_limiter =
  rl_prefix :: string
  rl_r :: real
  rl_b :: int

definition NewRedisLimiter :: "string \<Rightarrow> real \<Rightarrow> int \<Rightarrow> redis_limiter" where
  "NewRedisLimiter prefix r b = \<lparr>rl_prefix = prefix, rl_r = r, rl_b = b\<rparr>"

text \<open>
  One call over the network: the clocks of the server and of this process, and whether the
  call failed, before or after the script ran.
\<close>

datatype 'e redis_net = NetOk | FailedBefore 'e | FailedAfter 'e

record 'e redis_env =
  env_server_ms :: int
  env_now_ms :: int
  env_net :: "'e redis_net"

definition redis_Allow ::
  "redis_limiter \<Rightarrow> 'e redis_env \<Rightarrow> string \<Rightarrow> redis_db \<Rightarrow> ('e + bool) \<times> redis_db" where
  "redis_Allow rl env key db =
     (let (res, db') = redis_eval (env_server_ms env) (rl_r rl) (rl_b rl) (env_now_ms env)
                         (rl_prefix rl @ key) db
      in case env_net env of
           FailedBefore e \<Rightarrow> (Inl e, db)
         | FailedAfter e \<Rightarrow> (Inl e, db')
         | NetOk \<Rightarrow> (Inr (res \<noteq> 0), db'))"

section \<open>The limiter interface\<close>

text \<open>
  \<^verbatim>\<open>ratelimit.Limiter\<close>. A limiter keeps a separate state for every key: a call for one key
  is decided by that key's state alone and leaves the state of every other key as it was.
  \<open>decisions\<close> runs a sequence of calls.
\<close>

primrec decisions ::
  "('env \<Rightarrow> string \<Rightarrow> 's \<Rightarrow> ('e + bool) \<times> 's) \<Rightarrow> ('env \<times> string) list \<Rightarrow> 's \<Rightarrow>
   (string \<times> ('e + bool)) list" where
  "decisions allow [] s = []"
| "decisions allow (r # rs) s =
     (snd r, fst (allow (fst r) (snd r) s)) # decisions allow rs (snd (allow (fst r) (snd r) s))"

locale limiter =
  fixes allow :: "'env \<Rightarrow> string \<Rightarrow> 's \<Rightarrow> ('e + bool) \<times> 's"
    and view :: "'s \<Rightarrow> string \<Rightarrow> 'v"
    and invar :: "'s \<Rightarrow> bool"
  assumes allow_other: "invar s \<Longrightarrow> k' \<noteq> k \<Longrightarrow> view (snd (allow env k s)) k' = view s k'"
    and allow_local: "invar s \<Longrightarrow> invar s' \<Longrightarrow> view s k = view s' k \<Longrightarrow>
      fst (allow env k s) = fst (allow env k s') \<and>
      view (snd (allow env k s)) k = view (snd (allow env k s')) k"
    and allow_invar: "invar s \<Longrightarrow> invar (snd (allow env k s))"
begin

lemma decisions_noninterference:
  assumes "invar s" "invar s'" "view s k = view s' k"
  shows "filter (\<lambda>d. fst d = k) (decisions allow rs s) =
         decisions allow (filter (\<lambda>r. snd r = k) rs) s'"
  using assms
proof (induction rs arbitrary: s s')
  case (Cons r rs)
  obtain env k' where r: "r = (env, k')" by (cases r)
  show ?case
  proof (cases "k' = k")
    case True
    with r Cons.prems Cons.IH [of "snd (allow env k s)" "snd (allow env k s')"]
    show ?thesis using allow_local [of s s' k env] by (simp add: allow_invar)
  next
    case False
    with r Cons.prems Cons.IH [of "snd (allow env k' s)" s']
    show ?thesis by (simp add: allow_invar allow_other)
  qed
qed simp

end

section \<open>Per-key view of the in-memory limiter\<close>

definition mem_view :: "'l mem_limiter \<Rightarrow> string \<Rightarrow> ('l \<times> time) option \<times> real \<times> int" where
  "mem_view ml k =
     (map_option (\<lambda>e. (ml_heap ml (en_limiter e), en_lastSeen e)) (sm_Load (ml_entries ml) k),
      ml_r ml, ml_b ml)"

definition mem_inv :: "'l mem_limiter \<Rightarrow> bool" where
  "mem_inv ml \<longleftrightarrow>
     sm_inv (ml_entries ml) \<and>
     (\<forall>k e. sm_Load (ml_entries ml) k = Some e \<longrightarrow> en_limiter e < ml_next ml) \<and>
     (\<forall>k k' e e'. sm_Load (ml_entries ml) k = Some e \<longrightarrow> sm_Load (ml_entries ml) k' = Some e' \<longrightarrow>
        en_limiter e = en_limiter e' \<longrightarrow> k = k')"

text \<open>The limiter a call for a key uses: the stored one, or a new one.\<close>

definition key_limiter :: "(real \<Rightarrow> int \<Rightarrow> 'l) \<Rightarrow> ('l \<times> time) option \<times> real \<times> int \<Rightarrow> 'l" where
  "key_limiter lim_new v = (case v of (Some (l, t), r, b) \<Rightarrow> l | (None, r, b) \<Rightarrow> lim_new r b)"

lemma memory_Allow_spec:
  assumes "mem_inv ml"
  shows "fst (memory_Allow lim_new lim_allow now k ml) =
      Inr (fst (lim_allow now (key_limiter lim_new (mem_view ml k))))"
    and "mem_view (snd (memory_Allow lim_new lim_allow now k ml)) k' =
      (if k' = k
       then (Some (snd (lim_allow now (key_limiter lim_new (mem_view ml k))), now), snd (mem_view ml k))
       else mem_view ml k')"
    and "mem_inv (snd (memory_Allow lim_new lim_allow now k ml))"
    and "ml_cleanupMaxIdle (snd (memory_Allow lim_new lim_allow now k ml)) = ml_cleanupMaxIdle ml"
proof (atomize (full), goal_cases)
  case 1
  show ?case
  proof (cases "sm_Load (ml_entries ml) k")
    case None
    have "\<forall>j e. sm_Load (ml_entries ml) j = Some e \<longrightarrow> en_limiter e \<noteq> ml_next ml"
      using assms unfolding mem_inv_def by (metis less_irrefl)
    with None assms show ?thesis
      by (auto simp: memory_Allow_def allow_slow_path_def limiter_Allow_def sm_LoadOrStore_def
          mem_view_def mem_inv_def key_limiter_def smap.load_store smap.invar_store Let_def
          case_prod_beta less_Suc_eq map_option_case split: option.split) blast+
  next
    case (Some e)
    have "\<forall>j e'. sm_Load (ml_entries ml) j = Some e' \<longrightarrow> j \<noteq> k \<longrightarrow> en_limiter e' \<noteq> en_limiter e"
      using assms Some by (auto simp: mem_inv_def)
    with Some assms show ?thesis
      by (auto simp: memory_Allow_def limiter_Allow_def mem_view_def mem_inv_def key_limiter_def
          smap.load_store smap.invar_store Let_def case_prod_beta map_option_case split: option.split)
  qed
qed

lemma mem_inv_New: "mem_inv (NewMemoryLimiter heap p r b ci mi)"
  by (simp add: mem_inv_def NewMemoryLimiter_def smap.load_empty smap.invar_empty)

interpretation meml: limiter "memory_Allow lim_new lim_allow" mem_view mem_inv for lim_new lim_allow
  by unfold_locales (simp_all add: memory_Allow_spec)

interpretation redl: limiter "redis_Allow rl" "\<lambda>db k. (\<lambda>x. (db :: redis_db) x) (rl_prefix rl @ k)" "\<lambda>_. True" for rl
  by unfold_locales
    (auto simp: redis_Allow_def redis_eval_def redis_live_def Let_def case_prod_beta
      split: redis_net.split)

lemma sm_Load_member: "sm_inv m \<Longrightarrow> sm_Load m k = Some e \<longleftrightarrow> (k, e) \<in> set m"
  by (simp add: sm_Load_def sm_inv_def map_of_eq_Some_iff)

lemma idle_keys_iff:
  assumes "mem_inv ml"
  shows "k \<in> set (idle_keys now ml) \<longleftrightarrow>
    (\<exists>e. sm_Load (ml_entries ml) k = Some e \<and> now - en_lastSeen e > ml_cleanupMaxIdle ml)"
proof -
  have "sm_inv (ml_entries ml)" using assms by (simp add: mem_inv_def)
  from sm_Load_member [OF this] show ?thesis by (force simp: idle_keys_def)
qed

lemma cleanup_spec:
  assumes "mem_inv ml"
  shows "mem_view (cleanup now ml) k =
      (case mem_view ml k of
         (Some (l, t), rb) \<Rightarrow> (if now - t > ml_cleanupMaxIdle ml then None else Some (l, t), rb)
       | (None, rb) \<Rightarrow> (None, rb))"
    and "mem_inv (cleanup now ml)"
    and "ml_cleanupMaxIdle (cleanup now ml) = ml_cleanupMaxIdle ml"
proof (atomize (full), goal_cases)
  case 1
  have load: "sm_Load (ml_entries (cleanup now ml)) j =
      (if j \<in> set (idle_keys now ml) then None else sm_Load (ml_entries ml) j)" for j
    by (simp add: cleanup_def smap.load_fold_delete)
  have "mem_inv (cleanup now ml)"
    using assms load
    by (auto simp: mem_inv_def cleanup_def smap.invar_fold_delete smap.load_fold_delete split: if_splits)
  moreover have "mem_view (cleanup now ml) k =
      (if k \<in> set (idle_keys now ml) then None else fst (mem_view ml k), snd (mem_view ml k))"
    by (simp add: mem_view_def load) (simp add: cleanup_def)
  ultimately show ?case
    using idle_keys_iff [OF assms, of k now]
    by (auto simp: cleanup_def mem_view_def split: option.split)
qed

section \<open>The script as a token bucket\<close>

definition bucket_ok :: "int \<Rightarrow> bucket \<Rightarrow> bool" where
  "bucket_ok burst b \<longleftrightarrow> 0 \<le> bk_tokens b \<and> bk_tokens b \<le> real_of_int burst"

abbreviation script_ttl :: "real \<Rightarrow> int \<Rightarrow> int" where
  "script_ttl rate burst \<equiv> \<lceil>real_of_int burst / rate * 1000\<rceil> + 1000"

lemma script_ttl: "snd (snd (limiterLuaScript rate burst now b)) = script_ttl rate burst"
  by (simp add: limiterLuaScript_def Let_def)

lemma script_ts: "bk_ts (fst (snd (limiterLuaScript rate burst now b))) = now"
  by (simp add: limiterLuaScript_def Let_def)

lemma script_allowed: "fst (limiterLuaScript rate burst now b) \<in> {0, 1}"
  by (simp add: limiterLuaScript_def Let_def)

lemma script_bucket_ok:
  assumes "0 < rate" "0 < burst" "case b of None \<Rightarrow> True | Some b \<Rightarrow> bucket_ok burst b"
  shows "bucket_ok burst (fst (snd (limiterLuaScript rate burst now b)))"
proof -
  have "0 \<le> (case b of None \<Rightarrow> real_of_int burst | Some b \<Rightarrow> bk_tokens b)"
    using assms(2,3) by (auto simp: bucket_ok_def split: option.splits)
  moreover have "0 \<le> real_of_int (max 0 (now - l)) / 1000 * rate" for l
    using assms(1) by simp
  ultimately show ?thesis
    using assms(2) by (simp add: bucket_ok_def limiterLuaScript_def Let_def add_nonneg_nonneg min_def)
qed

text \<open>Tokens are conserved: what a call hands out was there before or was refilled since.\<close>

lemma script_conserves:
  assumes "bk_ts b \<le> now"
  shows "real_of_int (fst (limiterLuaScript rate burst now (Some b))) +
      bk_tokens (fst (snd (limiterLuaScript rate burst now (Some b))))
    \<le> bk_tokens b + rate * real_of_int (now - bk_ts b) / 1000"
  using assms by (simp add: limiterLuaScript_def Let_def min_def algebra_simps)

lemma script_first:
  "real_of_int (fst (limiterLuaScript rate burst now None)) +
   bk_tokens (fst (snd (limiterLuaScript rate burst now None))) \<le> real_of_int burst"
  by (simp add: limiterLuaScript_def Let_def)

text \<open>A bucket left alone for the life time the script asks for is full again.\<close>

lemma script_idle_is_fresh:
  assumes "0 < rate" "bucket_ok burst b"
    and "real_of_int burst / rate * 1000 \<le> real_of_int (now - bk_ts b)"
  shows "limiterLuaScript rate burst now (Some b) = limiterLuaScript rate burst now None"
proof -
  have "real_of_int burst \<le> real_of_int (now - bk_ts b) / 1000 * rate"
    using assms(1,3) by (simp add: field_simps)
  also have "\<dots> \<le> real_of_int (max 0 (now - bk_ts b)) / 1000 * rate"
    using assms(1) by (intro mult_right_mono divide_right_mono) auto
  finally have "real_of_int burst \<le> bk_tokens b + real_of_int (max 0 (now - bk_ts b)) / 1000 * rate"
    using assms(2) by (simp add: bucket_ok_def)
  then show ?thesis by (simp add: limiterLuaScript_def Let_def min_absorb1)
qed

section \<open>Redis: expiry and rate\<close>

text \<open>Calls made while the server's clock is a fixed offset ahead of the gateway's.\<close>

definition in_step :: "int \<Rightarrow> int \<Rightarrow> 'e redis_env" where
  "in_step off t = \<lparr>env_server_ms = t + off, env_now_ms = t, env_net = NetOk\<rparr>"

text \<open>The same calls on a database that never drops a key.\<close>

fun script_run :: "real \<Rightarrow> int \<Rightarrow> int list \<Rightarrow> bucket option \<Rightarrow> bool list" where
  "script_run rate burst [] b = []"
| "script_run rate burst (t # ts) b =
     (case limiterLuaScript rate burst t b of
        (allowed, b', ttl) \<Rightarrow> (allowed \<noteq> 0) # script_run rate burst ts (Some b'))"

definition stored_ok :: "redis_limiter \<Rightarrow> int \<Rightarrow> (bucket \<times> int) option \<Rightarrow> bool" where
  "stored_ok rl off v =
     (case v of None \<Rightarrow> True
      | Some (b, ex) \<Rightarrow> bucket_ok (rl_b rl) b \<and> ex = bk_ts b + off + script_ttl (rl_r rl) (rl_b rl))"

lemma redis_live_script:
  assumes "0 < rl_r rl" "stored_ok rl off (db k)"
  shows "limiterLuaScript (rl_r rl) (rl_b rl) t (redis_live (t + off) db k) =
         limiterLuaScript (rl_r rl) (rl_b rl) t (map_option fst (db k))"
proof (cases "db k")
  case (Some v)
  obtain b ex where v: "v = (b, ex)" by (cases v)
  show ?thesis
  proof (cases "t + off \<ge> ex")
    case True
    then have "script_ttl (rl_r rl) (rl_b rl) \<le> t - bk_ts b"
      using assms(2) Some v by (simp add: stored_ok_def)
    then have "real_of_int (rl_b rl) / rl_r rl * 1000 \<le> real_of_int (t - bk_ts b)"
      by linarith
    then show ?thesis
      using True Some v assms by (simp add: redis_live_def stored_ok_def script_idle_is_fresh)
  qed (simp add: redis_live_def Some v)
qed (simp add: redis_live_def)

lemma redis_decisions_script:
  assumes "0 < rl_r rl" "0 < rl_b rl" "stored_ok rl off (db (rl_prefix rl @ key))"
  shows "map snd (decisions (redis_Allow rl) (map (\<lambda>t. (in_step off t, key)) ts) db) =
         map Inr (script_run (rl_r rl) (rl_b rl) ts (map_option fst (db (rl_prefix rl @ key))))"
  using assms(3)
proof (induction ts arbitrary: db)
  case (Cons t ts)
  let ?k = "rl_prefix rl @ key"
  define s where "s = limiterLuaScript (rl_r rl) (rl_b rl) t (map_option fst (db ?k))"
  have eval: "redis_Allow rl (in_step off t) key db =
      (Inr (fst s \<noteq> 0), db(?k \<mapsto> (fst (snd s), t + off + snd (snd s))))"
    using redis_live_script [where rl = rl and off = off and db = db and k = ?k and t = t]
      assms(1) Cons.prems
    by (simp add: redis_Allow_def redis_eval_def in_step_def s_def Let_def case_prod_beta)
  have "bucket_ok (rl_b rl) (fst (snd s))"
    unfolding s_def using Cons.prems
    by (intro script_bucket_ok assms) (auto simp: stored_ok_def split: option.splits)
  then have "stored_ok rl off ((db(?k \<mapsto> (fst (snd s), t + off + snd (snd s)))) ?k)"
    by (simp add: stored_ok_def s_def script_ts script_ttl)
  note IH = Cons.IH [where db = "db(?k \<mapsto> (fst (snd s), t + off + snd (snd s)))", OF this]
  show ?case
    by (simp only: list.map decisions.simps script_run.simps eval s_def [symmetric]
        case_prod_beta fst_conv snd_conv IH fun_upd_same option.map)
qed simp

lemma script_run_bound:
  assumes "0 < rate" "0 < burst" "sorted (bk_ts b # ts)" "bucket_ok burst b"
  shows "real (count_list (script_run rate burst ts (Some b)) True) \<le>
         bk_tokens b + rate * real_of_int (last (bk_ts b # ts) - bk_ts b) / 1000"
  using assms(3,4)
proof (induction ts arbitrary: b)
  case Nil
  then show ?case by (simp add: bucket_ok_def)
next
  case (Cons t ts)
  define s where "s = limiterLuaScript rate burst t (Some b)"
  let ?b = "fst (snd s)" and ?last = "last (t # ts)"
  have ts: "bk_ts ?b = t" by (simp add: s_def script_ts)
  have "bucket_ok burst ?b"
    unfolding s_def using Cons.prems(2) by (intro script_bucket_ok assms) simp
  with Cons.IH [of ?b] Cons.prems(1) ts
  have IH: "real (count_list (script_run rate burst ts (Some ?b)) True) \<le>
      bk_tokens ?b + rate * real_of_int (?last - t) / 1000"
    by simp
  have one: "real (count_list [fst s \<noteq> 0] True) = real_of_int (fst s)"
    using script_allowed [of rate burst t "Some b"] by (auto simp: s_def)
  have "real_of_int (fst s) + bk_tokens ?b \<le> bk_tokens b + rate * real_of_int (t - bk_ts b) / 1000"
    unfolding s_def by (rule script_conserves) (use Cons.prems(1) in simp)
  moreover have "rate * real_of_int (t - bk_ts b) / 1000 + rate * real_of_int (?last - t) / 1000 =
      rate * real_of_int (?last - bk_ts b) / 1000"
    by (simp add: field_simps)
  moreover have "real (count_list (script_run rate burst (t # ts) (Some b)) True) =
      real_of_int (fst s) + real (count_list (script_run rate burst ts (Some ?b)) True)"
    using one by (simp add: s_def case_prod_beta split: if_splits)
  ultimately show ?case using IH by simp
qed

lemma script_run_bound_first:
  assumes "0 < rate" "0 < burst" "sorted (t # ts)"
  shows "real (count_list (script_run rate burst (t # ts) None) True) \<le>
         real_of_int burst + rate * real_of_int (last (t # ts) - t) / 1000"
proof -
  define s where "s = limiterLuaScript rate burst t None"
  let ?b = "fst (snd s)"
  have ts: "bk_ts ?b = t" by (simp add: s_def script_ts)
  have "bucket_ok burst ?b" unfolding s_def by (intro script_bucket_ok assms) simp
  with script_run_bound [OF assms(1,2), of ?b ts] assms(3) ts
  have "real (count_list (script_run rate burst ts (Some ?b)) True) \<le>
      bk_tokens ?b + rate * real_of_int (last (t # ts) - t) / 1000"
    by simp
  moreover have "real_of_int (fst s) + bk_tokens ?b \<le> real_of_int burst"
    unfolding s_def by (rule script_first)
  moreover have "real (count_list (script_run rate burst (t # ts) None) True) =
      real_of_int (fst s) + real (count_list (script_run rate burst ts (Some ?b)) True)"
    using script_allowed [of rate burst t None] by (auto simp: s_def case_prod_beta)
  ultimately show ?thesis by linarith
qed

section \<open>Cleaning up idle keys\<close>

text \<open>
  The in-memory limiter's calls and the ticks of its cleanup goroutine, as a sequence of
  events; \<open>mem_run\<close> lists the decisions of the calls.
\<close>

datatype mem_event = Call time string | CleanupTick time

fun event_time :: "mem_event \<Rightarrow> time" where
  "event_time (Call t k) = t"
| "event_time (CleanupTick t) = t"

fun is_call :: "mem_event \<Rightarrow> bool" where
  "is_call (Call t k) = True"
| "is_call (CleanupTick t) = False"

fun mem_run ::
  "(real \<Rightarrow> int \<Rightarrow> 'l) \<Rightarrow> (time \<Rightarrow> 'l \<Rightarrow> bool \<times> 'l) \<Rightarrow> mem_event list \<Rightarrow> 'l mem_limiter \<Rightarrow>
   (unit + bool) list" where
  "mem_run lim_new lim_allow [] ml = []"
| "mem_run lim_new lim_allow (Call t k # evs) ml =
     (case memory_Allow lim_new lim_allow t k ml of (r, ml') \<Rightarrow> r # mem_run lim_new lim_allow evs ml')"
| "mem_run lim_new lim_allow (CleanupTick t # evs) ml =
     mem_run lim_new lim_allow evs (cleanup t ml)"

text \<open>
  The states a limiter created with \<open>lim_new r b\<close> can be in after a call at a given time.
\<close>

inductive lim_used ::
  "(real \<Rightarrow> int \<Rightarrow> 'l) \<Rightarrow> (time \<Rightarrow> 'l \<Rightarrow> bool \<times> 'l) \<Rightarrow> real \<Rightarrow> int \<Rightarrow> 'l \<Rightarrow> time \<Rightarrow> bool"
  for lim_new lim_allow r b where
  first: "lim_used lim_new lim_allow r b (snd (lim_allow t (lim_new r b))) t"
| again: "lim_used lim_new lim_allow r b l t \<Longrightarrow> t \<le> t' \<Longrightarrow>
    lim_used lim_new lim_allow r b (snd (lim_allow t' l)) t'"

text \<open>
  Two limiters that agree on every key, except that the left one may have dropped keys that
  have been idle for longer than \<open>mi\<close> at time \<open>now\<close>.
\<close>

fun key_agree ::
  "('l \<Rightarrow> time \<Rightarrow> bool) \<Rightarrow> real \<times> int \<Rightarrow> duration \<Rightarrow> time \<Rightarrow>
   ('l \<times> time) option \<times> real \<times> int \<Rightarrow> ('l \<times> time) option \<times> real \<times> int \<Rightarrow> bool" where
  "key_agree used rb mi now (None, p) (None, q) \<longleftrightarrow> p = rb \<and> q = rb"
| "key_agree used rb mi now (Some x, p) (None, q) \<longleftrightarrow> False"
| "key_agree used rb mi now (None, p) (Some (l, t), q) \<longleftrightarrow>
     p = rb \<and> q = rb \<and> used l t \<and> t \<le> now \<and> now - t > mi"
| "key_agree used rb mi now (Some x, p) (Some (l, t), q) \<longleftrightarrow>
     p = rb \<and> q = rb \<and> used l t \<and> t \<le> now \<and> x = (l, t)"

definition agree ::
  "('l \<Rightarrow> time \<Rightarrow> bool) \<Rightarrow> real \<times> int \<Rightarrow> duration \<Rightarrow> time \<Rightarrow>
   'l mem_limiter \<Rightarrow> 'l mem_limiter \<Rightarrow> bool" where
  "agree used rb mi now ml ml' \<longleftrightarrow>
     mem_inv ml \<and> mem_inv ml' \<and> ml_cleanupMaxIdle ml = mi \<and>
     (\<forall>k. key_agree used rb mi now (mem_view ml k) (mem_view ml' k))"

lemma key_agree_later:
  "key_agree used rb mi now v v' \<Longrightarrow> now \<le> t' \<Longrightarrow> key_agree used rb mi t' v v'"
  by (cases "(used, rb, mi, now, v, v')" rule: key_agree.cases) auto

lemma key_agree_drop:
  "key_agree used rb mi now v v' \<Longrightarrow>
   key_agree used rb mi now
     (case v of (Some (l, t), p) \<Rightarrow> (if now - t > mi then None else Some (l, t), p) | (None, p) \<Rightarrow> (None, p)) v'"
  by (cases "(used, rb, mi, now, v, v')" rule: key_agree.cases) auto

lemma key_agree_limiter:
  assumes "key_agree used (r, b) mi now v v'"
    and "\<And>l t. used l t \<Longrightarrow> now - t > mi \<Longrightarrow> lim_allow now l = lim_allow now (lim_new r b)"
  shows "lim_allow now (key_limiter lim_new v) = lim_allow now (key_limiter lim_new v')"
  using assms
  by (cases "(used, (r, b), mi, now, v, v')" rule: key_agree.cases) (auto simp: key_limiter_def)

lemma key_agree_used:
  assumes "key_agree (lim_used lim_new lim_allow r b) (r, b) mi now v v'"
  shows "lim_used lim_new lim_allow r b (snd (lim_allow now (key_limiter lim_new v'))) now"
  using assms
  by (cases "(lim_used lim_new lim_allow r b, (r, b), mi, now, v, v')" rule: key_agree.cases)
    (auto simp: key_limiter_def intro: lim_used.intros)

lemma key_agree_snd: "key_agree used rb mi now v v' \<Longrightarrow> snd v = rb \<and> snd v' = rb"
  by (cases "(used, rb, mi, now, v, v')" rule: key_agree.cases) auto

lemma agree_later: "agree used rb mi now ml ml' \<Longrightarrow> now \<le> t' \<Longrightarrow> agree used rb mi t' ml ml'"
  by (auto simp: agree_def intro: key_agree_later)

lemma agree_CleanupTick:
  "agree used rb mi now ml ml' \<Longrightarrow> agree used rb mi now (cleanup now ml) ml'"
  by (auto simp: agree_def cleanup_spec intro: key_agree_drop)

lemma agree_Call:
  assumes "agree (lim_used lim_new lim_allow r b) (r, b) mi t ml ml'"
    and "lim_allow t (key_limiter lim_new (mem_view ml k)) =
         lim_allow t (key_limiter lim_new (mem_view ml' k))"
  shows "agree (lim_used lim_new lim_allow r b) (r, b) mi t
    (snd (memory_Allow lim_new lim_allow t k ml)) (snd (memory_Allow lim_new lim_allow t k ml'))"
proof -
  have inv: "mem_inv ml" "mem_inv ml'"
    and k: "\<And>k. key_agree (lim_used lim_new lim_allow r b) (r, b) mi t (mem_view ml k) (mem_view ml' k)"
    using assms(1) by (auto simp: agree_def)
  show ?thesis
    using assms(1) key_agree_used [OF k, of k] key_agree_snd [OF k, of k]
    by (simp add: agree_def memory_Allow_spec inv assms(2))
qed

text \<open>
  What the cleanup relies on of a limiter created with rate \<open>r\<close> and burst \<open>b\<close>: after
  \<open>mi\<close> without a call it answers as a new one would (the bucket, which holds at most
  \<open>b\<close> tokens and is refilled at rate \<open>r\<close>, is full again).
\<close>

locale idle_refill =
  fixes lim_new :: "real \<Rightarrow> int \<Rightarrow> 'l"
    and lim_allow :: "time \<Rightarrow> 'l \<Rightarrow> bool \<times> 'l"
    and r :: real and b :: int and mi :: duration
  assumes idle_full: "lim_used lim_new lim_allow r b l t \<Longrightarrow> t' - t > mi \<Longrightarrow>
      lim_allow t' l = lim_allow t' (lim_new r b)"
begin

lemma agree_run:
  assumes "agree (lim_used lim_new lim_allow r b) (r, b) mi now ml ml'"
    and "sorted (now # map event_time evs)"
  shows "mem_run lim_new lim_allow evs ml = mem_run lim_new lim_allow (filter is_call evs) ml'"
  using assms
proof (induction evs arbitrary: now ml ml')
  case (Cons ev evs)
  show ?case
  proof (cases ev)
    case (Call t k)
    have t: "agree (lim_used lim_new lim_allow r b) (r, b) mi t ml ml'"
      using agree_later [OF Cons.prems(1)] Cons.prems(2) Call by simp
    then have inv: "mem_inv ml" "mem_inv ml'"
      and k: "key_agree (lim_used lim_new lim_allow r b) (r, b) mi t (mem_view ml k) (mem_view ml' k)"
      by (auto simp: agree_def)
    have same: "lim_allow t (key_limiter lim_new (mem_view ml k)) =
        lim_allow t (key_limiter lim_new (mem_view ml' k))"
      by (rule key_agree_limiter [OF k]) (rule idle_full)
    have "mem_run lim_new lim_allow evs (snd (memory_Allow lim_new lim_allow t k ml)) =
        mem_run lim_new lim_allow (filter is_call evs) (snd (memory_Allow lim_new lim_allow t k ml'))"
      using agree_Call [OF t same] Cons.prems(2) Call by (intro Cons.IH [of t]) simp_all
    then show ?thesis
      using Call same inv by (simp add: case_prod_beta memory_Allow_spec(1))
  next
    case (CleanupTick t)
    then have "agree (lim_used lim_new lim_allow r b) (r, b) mi t ml ml'"
      using agree_later [OF Cons.prems(1)] Cons.prems(2) by simp
    from agree_CleanupTick [OF this] show ?thesis
      using CleanupTick Cons.prems(2) Cons.IH [of t] by simp
  qed
qed simp

lemma cleanup_invisible:
  assumes "sorted (map event_time evs)"
  shows "mem_run lim_new lim_allow evs (NewMemoryLimiter heap p r b ci mi) =
         mem_run lim_new lim_allow (filter is_call evs) (NewMemoryLimiter heap p r b ci mi)"
proof (cases evs)
  case (Cons ev evs')
  let ?ml = "NewMemoryLimiter heap p r b ci mi"
  have "agree (lim_used lim_new lim_allow r b) (r, b) mi (event_time ev) ?ml ?ml"
    by (simp add: agree_def mem_inv_New) (simp add: mem_view_def NewMemoryLimiter_def smap.load_empty)
  then show ?thesis by (rule agree_run) (use assms Cons in simp)
qed simp

end

text \<open>
  The Lua bucket packaged as a limiter (time in milliseconds): an instance of the contract, at
  the rate, burst and idle time of the edge limiter that \<^verbatim>\<open>buildRouter\<close> installs.
\<close>

type_synonym script_limiter = "real \<times> int \<times> bucket option"

definition script_new :: "real \<Rightarrow> int \<Rightarrow> script_limiter" where
  "script_new r b = (r, b, None)"

definition script_allow :: "time \<Rightarrow> script_limiter \<Rightarrow> bool \<times> script_limiter" where
  "script_allow t l =
     (case l of (r, b, bk) \<Rightarrow>
        (case limiterLuaScript r b t bk of (allowed, bk', ttl) \<Rightarrow> (allowed \<noteq> 0, (r, b, Some bk'))))"

lemma script_limiter_used:
  assumes "lim_used script_new script_allow r b l t" "0 < r" "0 < b"
  shows "\<exists>bk. l = (r, b, Some bk) \<and> bucket_ok b bk \<and> bk_ts bk = t"
  using assms
proof (induction rule: lim_used.induct)
  case (first t)
  then show ?case
    using script_bucket_ok [of r b None t]
    by (auto simp: script_new_def script_allow_def script_ts case_prod_beta)
next
  case (again l t t')
  then obtain bk where "l = (r, b, Some bk)" "bucket_ok b bk" by auto
  with again.prems script_bucket_ok [of r b "Some bk" t']
  show ?case by (auto simp: script_allow_def script_ts case_prod_beta)
qed

lemma script_limiter_idle:
  assumes "lim_used script_new script_allow r b l t" "0 < r" "0 < b"
    and "real_of_int b / r * 1000 \<le> real_of_int mi" "t' - t > mi"
  shows "script_allow t' l = script_allow t' (script_new r b)"
proof -
  obtain bk where bk: "l = (r, b, Some bk)" "bucket_ok b bk" "bk_ts bk = t"
    using script_limiter_used [OF assms(1-3)] by blast
  have "real_of_int b / r * 1000 \<le> real_of_int (t' - bk_ts bk)"
    using assms(4,5) bk(3) by linarith
  from script_idle_is_fresh [OF assms(2) bk(2) this] show ?thesis
    by (simp add: script_allow_def script_new_def bk(1))
qed

interpretation edge: idle_refill script_new script_allow 10 20 180000
  by unfold_locales (rule script_limiter_idle, simp_all)

section \<open>Properties\<close>

text \<open>
  Keys do not interfere in the in-memory limiter. In any sequence of calls the decisions
  for a key are those it would get if the calls for all other keys were left out, whatever
  token-bucket implementation the limiter uses.
\<close>
lemma memory_limiter_isolates_keys:
  "filter (\<lambda>d. fst d = k)
     (decisions (memory_Allow lim_new lim_allow) rs (NewMemoryLimiter heap p r b ci mi)) =
   decisions (memory_Allow lim_new lim_allow) (filter (\<lambda>c. snd c = k) rs)
     (NewMemoryLimiter heap p r b ci mi)"
  by (rule meml.decisions_noninterference [OF mem_inv_New mem_inv_New refl])



text \<open>
  Expiry never shows. The life time the script sets with \<open>PEXPIRE\<close> is long enough for
  the bucket to be full again, so with clocks in step every decision is the one a database
  that never drops a key would give.
\<close>
lemma redis_expiry_invisible:
  assumes "0 < rl_r rl" and "0 < rl_b rl"
  shows "map snd (decisions (redis_Allow rl) (map (\<lambda>t. (in_step off t, key)) ts) Map.empty) =
         map Inr (script_run (rl_r rl) (rl_b rl) ts None)"
proof -
  have ok: "stored_ok rl off (Map.empty (rl_prefix rl @ key))" by (simp add: stored_ok_def)
  show ?thesis unfolding redis_decisions_script [OF assms ok] option.map ..
qed



text \<open>
  Without that condition the cleanup over-admits. With rate 1 per second, burst 3 and
  idle time 1 second, a client that spends its burst and stays away for 1.001 seconds is
  given the whole burst again: 6 requests pass where the token bucket allows at most
  \<open>3 + 1 * 1.001\<close>.
\<close>
lemma memory_cleanup_overadmits:
  "mem_run script_new script_allow
     ([Call 0 ''k'', Call 0 ''k'', Call 0 ''k''] @ CleanupTick 1001 #
      [Call 1001 ''k'', Call 1001 ''k'', Call 1001 ''k''])
     (NewMemoryLimiter (\<lambda>_. script_new 0 0) [] 1 3 1000 1000) = replicate 6 (Inr True)"
  by (simp add: script_new_def script_allow_def limiterLuaScript_def memory_Allow_def
      allow_slow_path_def limiter_Allow_def NewMemoryLimiter_def cleanup_def idle_keys_def
      sm_LoadOrStore_def sm_Load_def sm_Store_def sm_Delete_def sm_empty_def Let_def
      numeral_eq_Suc)

definition skewed_calls :: "nat \<Rightarrow> (unit redis_env \<times> string) list" where
  "skewed_calls n = concat (replicate n
     [(\<lparr>env_server_ms = 0, env_now_ms = 0, env_net = NetOk\<rparr>, ''k''),
      (\<lparr>env_server_ms = 0, env_now_ms = 1000, env_net = NetOk\<rparr>, ''k'')])"

lemma skewed_calls_Suc:
  "skewed_calls (Suc n) =
     (\<lparr>env_server_ms = 0, env_now_ms = 0, env_net = NetOk\<rparr>, ''k'') #
     (\<lparr>env_server_ms = 0, env_now_ms = 1000, env_net = NetOk\<rparr>, ''k'') # skewed_calls n"
  by (simp add: skewed_calls_def)

lemma skewed_steps:
  "redis_Allow (NewRedisLimiter [] 1 1)
     \<lparr>env_server_ms = 0, env_now_ms = 0, env_net = NetOk\<rparr> ''k'' Map.empty =
   (Inr True, [''k'' \<mapsto> (\<lparr>bk_tokens = 0, bk_ts = 0\<rparr>, 2000)])"
  "redis_Allow (NewRedisLimiter [] 1 1)
     \<lparr>env_server_ms = 0, env_now_ms = 1000, env_net = NetOk\<rparr> ''k''
       [''k'' \<mapsto> (\<lparr>bk_tokens = 0, bk_ts = 0\<rparr>, 2000)] =
   (Inr True, [''k'' \<mapsto> (\<lparr>bk_tokens = 0, bk_ts = 1000\<rparr>, 2000)])"
  "redis_Allow (NewRedisLimiter [] 1 1)
     \<lparr>env_server_ms = 0, env_now_ms = 0, env_net = NetOk\<rparr> ''k''
       [''k'' \<mapsto> (\<lparr>bk_tokens = 0, bk_ts = 1000\<rparr>, 2000)] =
   (Inr False, [''k'' \<mapsto> (\<lparr>bk_tokens = 0, bk_ts = 0\<rparr>, 2000)])"
  by (simp_all add: redis_Allow_def redis_eval_def redis_live_def
      limiterLuaScript_def NewRedisLimiter_def)

lemma skewed_calls_later:
  "count_list (map snd (decisions (redis_Allow (NewRedisLimiter [] 1 1)) (skewed_calls n)
     [''k'' \<mapsto> (\<lparr>bk_tokens = 0, bk_ts = 1000\<rparr>, 2000)])) (Inr True) = n"
proof (induction n)
  case (Suc n)
  show ?case
    by (simp only: skewed_calls_Suc decisions.simps skewed_steps fst_conv snd_conv list.map
        count_list.simps Suc.IH) simp
qed (simp add: skewed_calls_def)

text \<open>
  With clocks out of step the bound fails. Two gateways whose clocks are one second apart
  and that take turns on one key at rate 1 and burst 1 let through one request per turn, so
  any number of them at a single instant of the server: the script stores \<open>now_ms\<close> as the
  bucket's time stamp even when it is older than the stored one, and the next call from the
  faster clock is credited with the difference again.
\<close>
lemma redis_clock_skew_overadmits:
  "count_list (map snd (decisions (redis_Allow (NewRedisLimiter [] 1 1)) (skewed_calls (Suc n))
     Map.empty)) (Inr True) = n + 2"
  by (simp only: skewed_calls_Suc decisions.simps skewed_steps fst_conv snd_conv list.map
      count_list.simps skewed_calls_later) simp

end
