(* ===== verification/Http_Model.thy ===== *)
theory Http_Model
  imports Go_Strings
begin

text \<open>
  Requests, headers, contexts and response writers of Go's \<^verbatim>\<open>net/http\<close>, as far as the
  gateway uses them, and the shape of a handler.

  A \<^verbatim>\<open>http.Header\<close> is a function from canonical keys to value lists; an absent key has the
  empty list. A handler is a function of the response header it finds in its writer, the
  request and a state; it yields the calls it makes on the writer, in order, and how it ended
  (it returned, or it panicked), with the new state. A middleware is a function from the next
  handler to a handler. \<open>rw_op\<close> is the writer at the bottom of the chain, the one of the
  HTTP server: the first \<open>WriteHeader\<close> fixes the status and the header that is sent.
\<close>

section \<open>Headers\<close>

type_synonym header = "string \<Rightarrow> string list"

definition empty_header :: header where
  "empty_header = (\<lambda>_. [])"

definition token_byte :: "char \<Rightarrow> bool" where
  "token_byte c \<longleftrightarrow>
     (let n = of_char c :: nat
      in (48 \<le> n \<and> n \<le> 57) \<or> (65 \<le> n \<and> n \<le> 90) \<or> (97 \<le> n \<and> n \<le> 122) \<or>
         n \<in> {33, 35, 36, 37, 38, 39, 42, 43, 45, 46, 94, 95, 96, 124, 126})"

fun canonical_from :: "bool \<Rightarrow> string \<Rightarrow> string" where
  "canonical_from upper [] = []"
| "canonical_from upper (c # cs) =
     (if upper then ascii_upper c else ascii_lower c) # canonical_from (c = CHR ''-'') cs"

text \<open>\<^verbatim>\<open>textproto.CanonicalMIMEHeaderKey\<close>: a key that is not a token is left as it is.\<close>

definition canonical_key :: "string \<Rightarrow> string" where
  "canonical_key k = (if list_all token_byte k then canonical_from True k else k)"

definition header_Get :: "header \<Rightarrow> string \<Rightarrow> string" where
  "header_Get h k = (case h (canonical_key k) of [] \<Rightarrow> [] | v # _ \<Rightarrow> v)"

definition header_Set :: "string \<Rightarrow> string \<Rightarrow> header \<Rightarrow> header" where
  "header_Set k v h = h(canonical_key k := [v])"

definition header_Add :: "string \<Rightarrow> string \<Rightarrow> header \<Rightarrow> header" where
  "header_Add k v h = h(canonical_key k := h (canonical_key k) @ [v])"

definition header_Del :: "string \<Rightarrow> header \<Rightarrow> header" where
  "header_Del k h = h(canonical_key k := [])"

text \<open>
  A loop over all entries of a header that adds them to another one. Go visits the keys in an
  unspecified order, which does not show in the result. The keys of a header that was filled
  with \<open>Set\<close> and \<open>Add\<close> are canonical, so adding does not rename them; \<open>canonical_header\<close>
  says so.
\<close>

definition header_AddAll :: "header \<Rightarrow> header \<Rightarrow> header" where
  "header_AddAll g h = (\<lambda>k. h k @ g k)"

definition canonical_header :: "header \<Rightarrow> bool" where
  "canonical_header h \<longleftrightarrow> (\<forall>k. h k \<noteq> [] \<longrightarrow> canonical_key k = k)"

lemma header_Get_Set:
  "header_Get (header_Set k v h) k' =
     (if canonical_key k' = canonical_key k then v else header_Get h k')"
  by (simp add: header_Get_def header_Set_def)

lemma header_Get_Del:
  "header_Get (header_Del k h) k' =
     (if canonical_key k' = canonical_key k then [] else header_Get h k')"
  by (simp add: header_Get_def header_Del_def)

section \<open>Contexts and requests\<close>

record claims =
  Subject :: string
  Roles :: "string list"

text \<open>The values the gateway stores in a request's context, one field per key.\<close>

record req_ctx =
  ctx_requestID :: "string option"
  ctx_claims :: "claims option"
  ctx_target :: "string option"
  ctx_trace :: "string option"

definition background :: req_ctx where
  "background = \<lparr>ctx_requestID = None, ctx_claims = None, ctx_target = None, ctx_trace = None\<rparr>"

record request =
  r_Method :: string
  r_Path :: string
  r_RawQuery :: string
  r_Header :: header
  r_Host :: string
  r_RemoteAddr :: string
  r_ContentLength :: int
  r_Body :: string
  r_bodyLimit :: "int option"
  r_ctx :: req_ctx

definition simple_request :: "string \<Rightarrow> string \<Rightarrow> string \<Rightarrow> request" where
  "simple_request m p q =
     \<lparr>r_Method = m, r_Path = p, r_RawQuery = q, r_Header = empty_header, r_Host = ''gw'',
      r_RemoteAddr = ''10.0.0.1:999'', r_ContentLength = 0, r_Body = [], r_bodyLimit = None,
      r_ctx = background\<rparr>"

section \<open>Writers and handlers\<close>

text \<open>
  The calls on a response writer. \<open>HeaderAddAll\<close> is the loop that adds every entry of a
  header. \<open>PanicError\<close> wraps a panic that \<^verbatim>\<open>singleflight\<close> raises again in its caller.
\<close>

datatype wop =
    HeaderSet string string
  | HeaderAdd string string
  | HeaderDel string
  | HeaderAddAll header
  | WriteHeader int
  | Write string

datatype panic = PanicMsg string | ErrAbortHandler | PanicError panic

datatype outcome = Returned_ok | Panicked panic

type_synonym reply = "wop list \<times> outcome"

type_synonym 's handler = "header \<Rightarrow> request \<Rightarrow> 's \<Rightarrow> reply \<times> 's"
type_synonym 's middleware = "'s handler \<Rightarrow> 's handler"

fun header_op :: "wop \<Rightarrow> header \<Rightarrow> header" where
  "header_op (HeaderSet k v) h = header_Set k v h"
| "header_op (HeaderAdd k v) h = header_Add k v h"
| "header_op (HeaderDel k) h = header_Del k h"
| "header_op (HeaderAddAll g) h = header_AddAll g h"
| "header_op op h = h"

record rwriter =
  rw_header :: header
  rw_status :: "int option"
  rw_sent :: header
  rw_body :: string

definition new_rwriter :: rwriter where
  "new_rwriter = \<lparr>rw_header = empty_header, rw_status = None, rw_sent = empty_header, rw_body = []\<rparr>"

text \<open>
  1xx statuses other than 101 are informational and leave the final status open. A body is
  not allowed after 204 and 304 (and 101): what is written there is dropped.
\<close>

definition rw_WriteHeader :: "int \<Rightarrow> rwriter \<Rightarrow> rwriter" where
  "rw_WriteHeader code w =
     (if rw_status w \<noteq> None then w
      else if 100 \<le> code \<and> code \<le> 199 \<and> code \<noteq> 101 then w
      else w\<lparr>rw_status := Some code, rw_sent := rw_header w\<rparr>)"

definition body_allowed :: "int \<Rightarrow> bool" where
  "body_allowed code \<longleftrightarrow> \<not> (100 \<le> code \<and> code \<le> 199) \<and> code \<noteq> 204 \<and> code \<noteq> 304"

definition rw_Write :: "string \<Rightarrow> rwriter \<Rightarrow> rwriter" where
  "rw_Write b w =
     (let w = (if rw_status w = None then rw_WriteHeader 200 w else w)
      in if body_allowed (the (rw_status w)) then w\<lparr>rw_body := rw_body w @ b\<rparr> else w)"

fun rw_op :: "wop \<Rightarrow> rwriter \<Rightarrow> rwriter" where
  "rw_op (WriteHeader code) w = rw_WriteHeader code w"
| "rw_op (Write b) w = rw_Write b w"
| "rw_op op w = w\<lparr>rw_header := header_op op (rw_header w)\<rparr>"

text \<open>When the outermost handler returns the server sends 200 if nothing was sent before.\<close>

definition served :: "wop list \<Rightarrow> rwriter" where
  "served ops =
     (let w = fold rw_op ops new_rwriter
      in if rw_status w = None then rw_WriteHeader 200 w else w)"

section \<open>JSON error bodies\<close>

definition json_escape_char :: "char \<Rightarrow> string" where
  "json_escape_char c =
     (let n = of_char c :: nat; bs = CHR 0x5C
      in if n = 34 \<or> n = 92 then [bs, c]
         else if n = 8 then [bs, CHR ''b''] else if n = 12 then [bs, CHR ''f'']
         else if n = 10 then [bs, CHR ''n''] else if n = 13 then [bs, CHR ''r'']
         else if n = 9 then [bs, CHR ''t'']
         else if n < 32 \<or> n = 60 \<or> n = 62 \<or> n = 38
         then bs # ''u00'' @ [hex_digit (n div 16), hex_digit (n mod 16)]
         else [c])"

definition json_string :: "string \<Rightarrow> string" where
  "json_string s = CHR 0x22 # concat (map json_escape_char s) @ [CHR 0x22]"

text \<open>
  \<^verbatim>\<open>json.NewEncoder(w).Encode\<close> of a string map whose keys are listed in sorted order, with
  the newline the encoder adds.
\<close>

definition json_object :: "(string \<times> string) list \<Rightarrow> string" where
  "json_object kvs =
     ''{'' @ Join (map (\<lambda>(k, v). json_string k @ '':'' @ json_string v) kvs) '','' @ ''}'' @ [CHR 0x0A]"

text \<open>The three calls with which every component of the gateway answers an error.\<close>

definition writeJSON :: "int \<Rightarrow> (string \<times> string) list \<Rightarrow> wop list" where
  "writeJSON status body =
     [HeaderSet ''Content-Type'' ''application/json'', WriteHeader status, Write (json_object body)]"

section \<open>Laws\<close>

lemma rw_status_sticky: "rw_status w = Some c \<Longrightarrow> rw_status (rw_op op w) = Some c"
  by (cases op) (simp_all add: rw_WriteHeader_def rw_Write_def Let_def)

lemma rw_sent_sticky: "rw_status w = Some c \<Longrightarrow> rw_sent (rw_op op w) = rw_sent w"
  by (cases op) (simp_all add: rw_WriteHeader_def rw_Write_def Let_def)

text \<open>What was decided by the first status stays: no later call changes status or sent header.\<close>

lemma rw_committed:
  "rw_status w = Some c \<Longrightarrow>
   rw_status (fold rw_op ops w) = Some c \<and> rw_sent (fold rw_op ops w) = rw_sent w"
  by (induction ops arbitrary: w) (simp_all add: rw_status_sticky rw_sent_sticky)

lemma rw_status_after_WriteHeader:
  "rw_status w = None \<Longrightarrow> 200 \<le> code \<Longrightarrow>
   rw_status (fold rw_op (WriteHeader code # ops) w) = Some code"
  using rw_committed [of "rw_WriteHeader code w" code ops] by (simp add: rw_WriteHeader_def)

lemma served_writeJSON:
  assumes "200 \<le> status"
  shows "rw_status (served (writeJSON status body)) = Some status"
  using assms by (simp add: served_def writeJSON_def new_rwriter_def rw_WriteHeader_def rw_Write_def Let_def)

section \<open>Sequences of requests\<close>

text \<open>
  A handler serving requests one after the other; before each of them the state may change on
  its own (time passes, an upstream fails), which the first component of an event describes.
\<close>

fun serve_all :: "'s handler \<Rightarrow> (('s \<Rightarrow> 's) \<times> header \<times> request) list \<Rightarrow> 's \<Rightarrow> reply list \<times> 's" where
  "serve_all H [] s = ([], s)"
| "serve_all H ((f, h, r) # evs) s =
     (case H h r (f s) of (reply, s') \<Rightarrow>
        (case serve_all H evs s' of (replies, s'') \<Rightarrow> (reply # replies, s'')))"

end
