(* ===== verification/LRU_Cache.thy ===== *)
theory LRU_Cache
  imports Http_Model "HOL-Library.AList"
begin

text \<open>
  \<^verbatim>\<open>internal/cache/lru.go\<close>. The doubly linked list is a list of elements, front first, and
  an element is an address with the item it holds; the index maps a key to the address of its
  element, as the Go map holds a pointer. All methods run under the mutex. \<open>lru_inv\<close> ties
  the three fields \<open>order\<close>, \<open>index\<close> and \<open>bytes\<close> together; \<open>contents\<close> forgets the
  addresses, and the operations refine a plain recency list.
\<close>

section \<open>State and operations\<close>

record entry =
  e_Status :: int
  e_Header :: header
  e_Body :: string
  e_ETag :: string
  e_ExpiresAt :: time

definition Size :: "entry option \<Rightarrow> int" where
  "Size e = (case e of None \<Rightarrow> 0 | Some e \<Rightarrow> int (length (e_Body e)))"

type_synonym addr = nat

record item =
  it_key :: string
  it_entry :: entry

record lru =
  maxEntries :: int
  maxBytes :: int
  bytes :: int
  order :: "(addr \<times> item) list"
  index :: "string \<rightharpoonup> addr"
  fresh_addr :: addr

definition NewLRU :: "int \<Rightarrow> int \<Rightarrow> lru" where
  "NewLRU me mb = \<lparr>maxEntries = me, maxBytes = mb, bytes = 0, order = [], index = Map.empty,
     fresh_addr = 0\<rparr>"

text \<open>\<open>el\<close> is an element of the list, given by its address and the item it holds.\<close>

definition removeElement :: "addr \<times> item \<Rightarrow> lru \<Rightarrow> lru" where
  "removeElement el c =
     (case el of (a, it) \<Rightarrow>
        c\<lparr>order := AList.delete a (order c),
          index := (index c)(it_key it := None),
          bytes := bytes c - Size (Some (it_entry it))\<rparr>)"

definition MoveToFront :: "addr \<times> item \<Rightarrow> lru \<Rightarrow> lru" where
  "MoveToFront el c = c\<lparr>order := el # AList.delete (fst el) (order c)\<rparr>"

definition PushFront :: "item \<Rightarrow> lru \<Rightarrow> addr \<times> lru" where
  "PushFront it c =
     (let a = fresh_addr c in (a, c\<lparr>order := (a, it) # order c, fresh_addr := Suc a\<rparr>))"

text \<open>
  \<open>deref\<close> follows an address of the index to its item. The branch for an address outside
  the list is there because HOL functions are total; \<open>lru_inv\<close> rules it out.
\<close>

definition deref :: "lru \<Rightarrow> addr \<Rightarrow> item option" where
  "deref c a = map_of (order c) a"

definition lru_Get :: "time \<Rightarrow> string \<Rightarrow> lru \<Rightarrow> entry option \<times> lru" where
  "lru_Get now key c =
     (case index c key of
        None \<Rightarrow> (None, c)
      | Some a \<Rightarrow>
          (case deref c a of
             None \<Rightarrow> (None, c)
           | Some it \<Rightarrow>
               if now > e_ExpiresAt (it_entry it) then (None, removeElement (a, it) c)
               else (Some (it_entry it), MoveToFront (a, it) c)))"

function evict_entries :: "lru \<Rightarrow> lru" where
  "evict_entries c =
     (if maxEntries c > 0 \<and> int (length (order c)) > maxEntries c
      then evict_entries (removeElement (last (order c)) c) else c)"
  by pat_completeness auto
termination
proof (relation "measure (\<lambda>c. length (order c))")
  fix c :: lru
  assume "maxEntries c > 0 \<and> int (length (order c)) > maxEntries c"
  then have "last (order c) \<in> set (order c)" by (intro last_in_set) auto
  then have "length (AList.delete (fst (last (order c))) (order c)) < length (order c)"
    by (auto simp: AList.delete_eq intro!: length_filter_less)
  then show "(removeElement (last (order c)) c, c) \<in> measure (\<lambda>c. length (order c))"
    by (simp add: removeElement_def case_prod_beta)
qed simp

function evict_bytes :: "lru \<Rightarrow> lru" where
  "evict_bytes c =
     (if maxBytes c > 0 \<and> bytes c > maxBytes c
      then (if order c = [] then c else evict_bytes (removeElement (last (order c)) c)) else c)"
  by pat_completeness auto
termination
proof (relation "measure (\<lambda>c. length (order c))")
  fix c :: lru
  assume "order c \<noteq> []"
  then have "last (order c) \<in> set (order c)" by (rule last_in_set)
  then have "length (AList.delete (fst (last (order c))) (order c)) < length (order c)"
    by (auto simp: AList.delete_eq intro!: length_filter_less)
  then show "(removeElement (last (order c)) c, c) \<in> measure (\<lambda>c. length (order c))"
    by (simp add: removeElement_def case_prod_beta)
qed simp

declare evict_entries.simps [simp del] evict_bytes.simps [simp del]

definition evict :: "lru \<Rightarrow> lru" where
  "evict c = evict_bytes (evict_entries c)"

definition lru_Set :: "string \<Rightarrow> entry \<Rightarrow> lru \<Rightarrow> lru" where
  "lru_Set key e c =
     (let c = (case index c key of
                 None \<Rightarrow> c
               | Some a \<Rightarrow> (case deref c a of None \<Rightarrow> c | Some it \<Rightarrow> removeElement (a, it) c));
          it = \<lparr>it_key = key, it_entry = e\<rparr>;
          (a, c) = PushFront it c;
          c = c\<lparr>index := (index c)(key := Some a)\<rparr>;
          c = c\<lparr>bytes := bytes c + Size (Some e)\<rparr>
      in evict c)"

definition lru_Len :: "lru \<Rightarrow> int" where
  "lru_Len c = int (length (order c))"

definition lru_Bytes :: "lru \<Rightarrow> int" where
  "lru_Bytes c = bytes c"

section \<open>Abstract recency list\<close>

text \<open>
  The specification: a list of key-entry pairs, most recently used first. \<open>trim\<close> drops
  entries from the back until both bounds hold.
\<close>

type_synonym recency = "(string \<times> entry) list"

definition total_size :: "recency \<Rightarrow> int" where
  "total_size xs = (\<Sum>(k, e)\<leftarrow>xs. Size (Some e))"

fun trim_bytes :: "int \<Rightarrow> recency \<Rightarrow> recency" where
  "trim_bytes mb xs =
     (if mb > 0 \<and> total_size xs > mb \<and> xs \<noteq> [] then trim_bytes mb (butlast xs) else xs)"

declare trim_bytes.simps [simp del]

definition trim :: "int \<Rightarrow> int \<Rightarrow> recency \<Rightarrow> recency" where
  "trim me mb xs = trim_bytes mb (if me > 0 then take (nat me) xs else xs)"

definition spec_Get :: "time \<Rightarrow> string \<Rightarrow> recency \<Rightarrow> entry option \<times> recency" where
  "spec_Get now k xs =
     (case map_of xs k of
        None \<Rightarrow> (None, xs)
      | Some e \<Rightarrow> if now > e_ExpiresAt e then (None, AList.delete k xs)
                  else (Some e, (k, e) # AList.delete k xs))"

definition spec_Set :: "int \<Rightarrow> int \<Rightarrow> string \<Rightarrow> entry \<Rightarrow> recency \<Rightarrow> recency" where
  "spec_Set me mb k e xs = trim me mb ((k, e) # AList.delete k xs)"

definition contents :: "lru \<Rightarrow> recency" where
  "contents c = map (\<lambda>el. (it_key (snd el), it_entry (snd el))) (order c)"

definition lru_wf :: "lru \<Rightarrow> bool" where
  "lru_wf c \<longleftrightarrow>
     distinct (map fst (order c)) \<and>
     distinct (map (\<lambda>el. it_key (snd el)) (order c)) \<and>
     (\<forall>k a. index c k = Some a \<longleftrightarrow> (\<exists>it. (a, it) \<in> set (order c) \<and> it_key it = k)) \<and>
     (\<forall>el\<in>set (order c). fst el < fresh_addr c) \<and>
     bytes c = total_size (contents c)"

definition within_bounds :: "lru \<Rightarrow> bool" where
  "within_bounds c \<longleftrightarrow>
     (maxEntries c > 0 \<longrightarrow> lru_Len c \<le> maxEntries c) \<and>
     (maxBytes c > 0 \<longrightarrow> lru_Bytes c \<le> maxBytes c)"

definition lru_inv :: "lru \<Rightarrow> bool" where
  "lru_inv c \<longleftrightarrow> lru_wf c \<and> within_bounds c"

datatype lru_event = DoGet time string | DoSet string entry

fun lru_step :: "lru_event \<Rightarrow> lru \<Rightarrow> lru" where
  "lru_step (DoGet now k) c = snd (lru_Get now k c)"
| "lru_step (DoSet k e) c = lru_Set k e c"

fun spec_step :: "int \<Rightarrow> int \<Rightarrow> lru_event \<Rightarrow> recency \<Rightarrow> recency" where
  "spec_step me mb (DoGet now k) xs = snd (spec_Get now k xs)"
| "spec_step me mb (DoSet k e) xs = spec_Set me mb k e xs"

section \<open>Removing and inserting elements\<close>

lemma total_size_simps [simp]:
  "total_size [] = 0"
  "total_size ((k, e) # xs) = Size (Some e) + total_size xs"
  "total_size (xs @ ys) = total_size xs + total_size ys"
  by (simp_all add: total_size_def)

lemma Size_nonneg [simp]: "0 \<le> Size e"
  by (simp add: Size_def split: option.split)

lemma total_size_nonneg [simp]: "0 \<le> total_size xs"
  by (induction xs) auto

lemma delete_absent: "k \<notin> fst ` set xs \<Longrightarrow> AList.delete k xs = xs"
  by (force simp: AList.delete_eq filter_id_conv)

lemma total_size_delete:
  assumes "distinct (map fst xs)" "map_of xs k = Some e"
  shows "total_size (AList.delete k xs) = total_size xs - Size (Some e)"
  using assms
proof (induction xs)
  case (Cons x xs)
  then show ?case by (cases x) (auto simp: delete_absent split: if_splits)
qed simp

lemma contents_simps [simp]:
  "contents (c\<lparr>index := i\<rparr>) = contents c"
  "contents (c\<lparr>bytes := b\<rparr>) = contents c"
  "contents (c\<lparr>fresh_addr := n\<rparr>) = contents c"
  by (simp_all add: contents_def)

lemma map_fst_contents: "map fst (contents c) = map (\<lambda>el. it_key (snd el)) (order c)"
  by (simp add: contents_def)

lemma length_contents: "length (contents c) = length (order c)"
  by (simp add: contents_def)

lemma lru_wf_keys: "lru_wf c \<Longrightarrow> distinct (map fst (contents c))"
  by (simp add: lru_wf_def map_fst_contents)

lemma same_element:
  assumes "lru_wf c" "el \<in> set (order c)" "el' \<in> set (order c)"
  shows "fst el = fst el' \<longleftrightarrow> it_key (snd el) = it_key (snd el')"
  using assms by (auto simp: lru_wf_def distinct_map dest: inj_onD)

lemma index_iff:
  "lru_wf c \<Longrightarrow> index c k = Some a \<longleftrightarrow> (\<exists>it. (a, it) \<in> set (order c) \<and> it_key it = k)"
  by (simp add: lru_wf_def)

lemma deref_iff: "lru_wf c \<Longrightarrow> deref c a = Some it \<longleftrightarrow> (a, it) \<in> set (order c)"
  by (simp add: lru_wf_def deref_def map_of_eq_Some_iff)

lemma contents_lookup:
  assumes "lru_wf c" "(a, it) \<in> set (order c)"
  shows "map_of (contents c) (it_key it) = Some (it_entry it)"
  using assms lru_wf_keys [OF assms(1)]
  by (simp add: map_of_eq_Some_iff contents_def image_iff) (metis snd_conv)

lemma contents_absent:
  assumes "lru_wf c" "index c k = None"
  shows "k \<notin> fst ` set (contents c)"
proof
  assume "k \<in> fst ` set (contents c)"
  then obtain a it where "(a, it) \<in> set (order c)" "it_key it = k"
    by (auto simp: contents_def)
  then show False using assms index_iff [OF assms(1), of k a] by auto
qed

lemma removeElement_fields [simp]:
  "maxEntries (removeElement el c) = maxEntries c"
  "maxBytes (removeElement el c) = maxBytes c"
  "fresh_addr (removeElement el c) = fresh_addr c"
  "order (removeElement el c) = AList.delete (fst el) (order c)"
  "index (removeElement el c) = (index c)(it_key (snd el) := None)"
  "bytes (removeElement el c) = bytes c - Size (Some (it_entry (snd el)))"
  by (simp_all add: removeElement_def case_prod_beta)

lemma order_delete_by_key:
  assumes "lru_wf c" "el \<in> set (order c)"
  shows "AList.delete (fst el) (order c) =
         filter (\<lambda>x. it_key (snd x) \<noteq> it_key (snd el)) (order c)"
proof -
  have "(case x of (k', _) \<Rightarrow> fst el \<noteq> k') = (it_key (snd x) \<noteq> it_key (snd el))"
    if "x \<in> set (order c)" for x
    using same_element [OF assms(1) that assms(2)] by (auto simp: case_prod_beta)
  then show ?thesis unfolding AList.delete_eq by (intro filter_cong refl)
qed

lemma contents_removeElement:
  assumes "lru_wf c" "el \<in> set (order c)"
  shows "contents (removeElement el c) = AList.delete (it_key (snd el)) (contents c)"
proof -
  have "contents (removeElement el c) = filter (\<lambda>x. fst x \<noteq> it_key (snd el)) (contents c)"
    by (simp add: contents_def order_delete_by_key [OF assms] filter_map comp_def)
  also have "\<dots> = AList.delete (it_key (snd el)) (contents c)"
    by (auto simp: AList.delete_eq intro: filter_cong)
  finally show ?thesis .
qed

lemma lru_wf_removeElement:
  assumes wf: "lru_wf c" and el: "el \<in> set (order c)"
  shows "lru_wf (removeElement el c)"
proof -
  have "bytes (removeElement el c) = total_size (contents (removeElement el c))"
    using wf contents_lookup [OF wf, of "fst el" "snd el"] el
      total_size_delete [OF lru_wf_keys [OF wf], of "it_key (snd el)"]
    by (simp add: contents_removeElement lru_wf_def)
  moreover have "((index c)(it_key (snd el) := None)) k = Some a \<longleftrightarrow>
      (\<exists>it. (a, it) \<in> set (AList.delete (fst el) (order c)) \<and> it_key it = k)" for k a
    using index_iff [OF wf] by (auto simp: order_delete_by_key [OF wf el])
  moreover have "distinct (map fst (AList.delete (fst el) (order c)))"
    and "distinct (map (\<lambda>el. it_key (snd el)) (AList.delete (fst el) (order c)))"
    using wf by (auto simp: lru_wf_def AList.delete_eq distinct_map_filter)
  ultimately show ?thesis
    using wf el by (auto simp: lru_wf_def AList.delete_eq)
qed

lemma set_MoveToFront:
  assumes "lru_wf c" "el \<in> set (order c)"
  shows "set (el # AList.delete (fst el) (order c)) = set (order c)"
proof -
  have "x = el" if "x \<in> set (order c)" "fst x = fst el" for x
    using assms that by (auto simp: lru_wf_def distinct_map dest: inj_onD)
  then show ?thesis using assms(2) by (auto simp: AList.delete_eq)
qed

lemma lru_wf_MoveToFront:
  assumes wf: "lru_wf c" and el: "el \<in> set (order c)"
  shows "lru_wf (MoveToFront el c)"
proof -
  have keys: "distinct (map (\<lambda>x. it_key (snd x)) (el # AList.delete (fst el) (order c)))"
    using wf by (auto simp: order_delete_by_key [OF wf el] lru_wf_def distinct_map_filter)
  have addrs: "distinct (map fst (el # AList.delete (fst el) (order c)))"
    using wf by (auto simp: AList.delete_eq lru_wf_def distinct_map_filter)
  have "total_size (contents (MoveToFront el c)) = total_size (contents c)"
    using wf el contents_lookup [OF wf, of "fst el" "snd el"] contents_removeElement [OF wf el]
      total_size_delete [OF lru_wf_keys [OF wf], of "it_key (snd el)"]
    by (simp add: MoveToFront_def contents_def)
  then show ?thesis
    using wf set_MoveToFront [OF wf el] keys addrs
    by (simp add: lru_wf_def MoveToFront_def)
qed

lemma delete_last:
  assumes "distinct (map fst xs)" "xs \<noteq> []"
  shows "AList.delete (fst (last xs)) xs = butlast xs"
  using assms
proof (induction xs rule: rev_induct)
  case (snoc x xs)
  then show ?case
    using delete_absent [of "fst x" xs] by (auto simp: AList.delete_eq)
qed simp

lemma contents_remove_last:
  assumes "lru_wf c" "order c \<noteq> []"
  shows "contents (removeElement (last (order c)) c) = butlast (contents c)"
proof -
  have "contents c \<noteq> []" and "fst (last (contents c)) = it_key (snd (last (order c)))"
    using assms(2) by (simp_all add: contents_def last_map)
  then show ?thesis
    using assms delete_last [OF lru_wf_keys [OF assms(1)]] by (simp add: contents_removeElement)
qed

section \<open>Eviction\<close>

lemma evict_entries_spec:
  assumes "lru_wf c"
  shows "lru_wf (evict_entries c) \<and>
    maxEntries (evict_entries c) = maxEntries c \<and> maxBytes (evict_entries c) = maxBytes c \<and>
    contents (evict_entries c) =
      (if maxEntries c > 0 then take (nat (maxEntries c)) (contents c) else contents c)"
  using assms
proof (induction c rule: evict_entries.induct)
  case (1 c)
  show ?case
  proof (cases "maxEntries c > 0 \<and> int (length (order c)) > maxEntries c")
    case True
    then have ne: "order c \<noteq> []" by auto
    have "lru_wf (removeElement (last (order c)) c)"
      by (rule lru_wf_removeElement [OF "1.prems" last_in_set [OF ne]])
    note IH = "1.IH" [OF True this]
    have short: "take (nat (maxEntries c)) (butlast (contents c)) = take (nat (maxEntries c)) (contents c)"
      using True by (intro take_butlast) (simp add: length_contents nat_less_iff)
    have "evict_entries c = evict_entries (removeElement (last (order c)) c)"
      using True by (simp add: evict_entries.simps [of c])
    with IH True show ?thesis
      by (simp add: contents_remove_last [OF "1.prems" ne] short)
  next
    case False
    with "1.prems" show ?thesis
      by (auto simp: evict_entries.simps [of c] length_contents)
  qed
qed

lemma evict_bytes_spec:
  assumes "lru_wf c"
  shows "lru_wf (evict_bytes c) \<and>
    maxEntries (evict_bytes c) = maxEntries c \<and> maxBytes (evict_bytes c) = maxBytes c \<and>
    contents (evict_bytes c) = trim_bytes (maxBytes c) (contents c)"
  using assms
proof (induction c rule: evict_bytes.induct)
  case (1 c)
  have b: "bytes c = total_size (contents c)" using "1.prems" by (simp add: lru_wf_def)
  have e: "order c = [] \<longleftrightarrow> contents c = []" by (simp add: contents_def)
  show ?case
  proof (cases "maxBytes c > 0 \<and> bytes c > maxBytes c \<and> order c \<noteq> []")
    case True
    have "lru_wf (removeElement (last (order c)) c)"
      by (rule lru_wf_removeElement [OF "1.prems" last_in_set]) (use True in simp)
    then show ?thesis
      using "1.IH" True "1.prems" b e
      by (simp add: evict_bytes.simps [of c] trim_bytes.simps [of _ "contents c"] contents_remove_last)
  next
    case False
    then show ?thesis
      using "1.prems" b e
      by (auto simp: evict_bytes.simps [of c] trim_bytes.simps [of _ "contents c"])
  qed
qed

lemma evict_spec:
  assumes "lru_wf c"
  shows "lru_wf (evict c)" "maxEntries (evict c) = maxEntries c" "maxBytes (evict c) = maxBytes c"
    "contents (evict c) = trim (maxEntries c) (maxBytes c) (contents c)"
  using evict_entries_spec [OF assms] evict_bytes_spec [of "evict_entries c"]
  by (simp_all add: evict_def trim_def)

lemma trim_bytes_prefix: "prefix (trim_bytes mb xs) xs"
proof (induction mb xs rule: trim_bytes.induct)
  case (1 mb xs)
  show ?case
  proof (cases "mb > 0 \<and> total_size xs > mb \<and> xs \<noteq> []")
    case True
    then show ?thesis
      using prefix_order.trans [OF "1.IH" [OF True] prefixeq_butlast]
      by (simp add: trim_bytes.simps [of mb xs])
  qed (auto simp: trim_bytes.simps [of mb xs])
qed

lemma trim_bytes_fits: "mb > 0 \<Longrightarrow> total_size (trim_bytes mb xs) \<le> mb"
proof (induction mb xs rule: trim_bytes.induct)
  case (1 mb xs)
  then show ?case by (auto simp: trim_bytes.simps [of mb xs])
qed

lemma trim_bytes_maximal:
  assumes "prefix ys xs" "length ys > length (trim_bytes mb xs)"
  shows "mb > 0 \<and> total_size ys > mb"
  using assms
proof (induction mb xs arbitrary: ys rule: trim_bytes.induct)
  case (1 mb xs)
  show ?case
  proof (cases "mb > 0 \<and> total_size xs > mb \<and> xs \<noteq> []")
    case True
    have "ys = xs \<or> prefix ys (butlast xs)"
      using "1.prems"(1) True by (cases xs rule: rev_cases) auto
    then show ?thesis
      using "1.IH" [OF True, of ys] "1.prems"(2) True by (auto simp: trim_bytes.simps [of mb xs])
  next
    case False
    then have "trim_bytes mb xs = xs" by (auto simp: trim_bytes.simps [of mb xs])
    then show ?thesis using "1.prems" prefix_length_le [of ys xs] by simp
  qed
qed

lemma trim_prefix: "prefix (trim me mb xs) xs"
  using prefix_order.trans [OF trim_bytes_prefix take_is_prefix, of mb "nat me" xs]
  by (simp add: trim_def trim_bytes_prefix)

lemma trim_fits:
  "me > 0 \<Longrightarrow> int (length (trim me mb xs)) \<le> me"
  "mb > 0 \<Longrightarrow> total_size (trim me mb xs) \<le> mb"
  using prefix_length_le [OF trim_bytes_prefix [of mb "take (nat me) xs"]]
  by (auto simp: trim_def trim_bytes_fits)

section \<open>Refinement of the recency list\<close>

lemma lru_Get_refines:
  assumes "lru_wf c"
  shows "fst (lru_Get now k c) = fst (spec_Get now k (contents c))"
    and "contents (snd (lru_Get now k c)) = snd (spec_Get now k (contents c))"
    and "lru_wf (snd (lru_Get now k c))"
    and "maxEntries (snd (lru_Get now k c)) = maxEntries c"
    and "maxBytes (snd (lru_Get now k c)) = maxBytes c"
proof (atomize (full), goal_cases)
  case 1
  show ?case
  proof (cases "index c k")
    case None
    then have "map_of (contents c) k = None"
      using contents_absent [OF assms None] by (simp add: map_of_eq_None_iff)
    with None assms show ?thesis by (simp add: lru_Get_def spec_Get_def)
  next
    case (Some a)
    then obtain it where el: "(a, it) \<in> set (order c)" "it_key it = k"
      using index_iff [OF assms] by auto
    then have "deref c a = Some it" "map_of (contents c) k = Some (it_entry it)"
      using deref_iff [OF assms] contents_lookup [OF assms] by auto
    moreover have "contents (MoveToFront (a, it) c) = (k, it_entry it) # AList.delete k (contents c)"
      using contents_removeElement [OF assms el(1)] el(2) by (simp add: MoveToFront_def contents_def)
    moreover have "lru_wf (MoveToFront (a, it) c)"
      using lru_wf_MoveToFront [OF assms el(1)] .
    ultimately show ?thesis
      using Some el assms lru_wf_removeElement [OF assms el(1)] contents_removeElement [OF assms el(1)]
      by (simp add: lru_Get_def spec_Get_def MoveToFront_def)
  qed
qed

definition drop_key :: "string \<Rightarrow> lru \<Rightarrow> lru" where
  "drop_key k c =
     (case index c k of
        None \<Rightarrow> c
      | Some a \<Rightarrow> (case deref c a of None \<Rightarrow> c | Some it \<Rightarrow> removeElement (a, it) c))"

definition insert_front :: "string \<Rightarrow> entry \<Rightarrow> lru \<Rightarrow> lru" where
  "insert_front k e c =
     c\<lparr>order := (fresh_addr c, \<lparr>it_key = k, it_entry = e\<rparr>) # order c,
       fresh_addr := Suc (fresh_addr c), index := (index c)(k \<mapsto> fresh_addr c),
       bytes := bytes c + Size (Some e)\<rparr>"

lemma lru_Set_phases: "lru_Set k e c = evict (insert_front k e (drop_key k c))"
  by (simp add: lru_Set_def drop_key_def insert_front_def PushFront_def Let_def)

lemma drop_key_spec:
  assumes "lru_wf c"
  shows "lru_wf (drop_key k c) \<and> contents (drop_key k c) = AList.delete k (contents c) \<and>
    index (drop_key k c) k = None \<and>
    maxEntries (drop_key k c) = maxEntries c \<and> maxBytes (drop_key k c) = maxBytes c"
proof (cases "index c k")
  case None
  then show ?thesis
    using assms delete_absent [OF contents_absent [OF assms None]] by (simp add: drop_key_def)
next
  case (Some a)
  then obtain it where el: "(a, it) \<in> set (order c)" "it_key it = k"
    using index_iff [OF assms] by auto
  then have "deref c a = Some it" using deref_iff [OF assms] by auto
  then show ?thesis
    using Some el lru_wf_removeElement [OF assms el(1)] contents_removeElement [OF assms el(1)]
    by (simp add: drop_key_def)
qed

lemma insert_front_spec:
  assumes wf: "lru_wf c" and new: "index c k = None"
  shows "lru_wf (insert_front k e c) \<and> contents (insert_front k e c) = (k, e) # contents c \<and>
    maxEntries (insert_front k e c) = maxEntries c \<and> maxBytes (insert_front k e c) = maxBytes c"
proof -
  have k: "it_key (snd x) \<noteq> k" "fst x < fresh_addr c" if "x \<in> set (order c)" for x
    using that new index_iff [OF wf, of k "fst x"] wf by (auto simp: lru_wf_def)
  have "((index c)(k \<mapsto> fresh_addr c)) k' = Some a \<longleftrightarrow>
      (\<exists>it. (a, it) \<in> set ((fresh_addr c, \<lparr>it_key = k, it_entry = e\<rparr>) # order c) \<and> it_key it = k')"
    for k' a
    using index_iff [OF wf, of k' a] k by force
  moreover have "fresh_addr c \<notin> fst ` set (order c)" "k \<notin> (\<lambda>x. it_key (snd x)) ` set (order c)"
    using k by fastforce+
  ultimately show ?thesis
    using wf k by (simp add: lru_wf_def insert_front_def contents_def less_Suc_eq)
qed

lemma lru_Set_refines:
  assumes "lru_wf c"
  shows "contents (lru_Set k e c) = spec_Set (maxEntries c) (maxBytes c) k e (contents c)"
    and "lru_wf (lru_Set k e c)"
    and "maxEntries (lru_Set k e c) = maxEntries c"
    and "maxBytes (lru_Set k e c) = maxBytes c"
  using drop_key_spec [OF assms, of k] insert_front_spec [of "drop_key k c" k e]
    evict_spec [of "insert_front k e (drop_key k c)"]
  by (simp_all add: lru_Set_phases spec_Set_def)

lemmas lru_refines = lru_Get_refines lru_Set_refines

lemma within_bounds_contents:
  "lru_wf c \<Longrightarrow> within_bounds c \<longleftrightarrow>
     (maxEntries c > 0 \<longrightarrow> int (length (contents c)) \<le> maxEntries c) \<and>
     (maxBytes c > 0 \<longrightarrow> total_size (contents c) \<le> maxBytes c)"
  by (simp add: within_bounds_def lru_Len_def lru_Bytes_def length_contents lru_wf_def)

lemma length_delete_le: "length (AList.delete k xs) \<le> length xs"
  by (simp add: AList.delete_eq)

lemma spec_Get_shrinks:
  assumes "distinct (map fst xs)"
  shows "length (snd (spec_Get now k xs)) \<le> length xs"
    and "total_size (snd (spec_Get now k xs)) \<le> total_size xs"
proof (atomize (full), goal_cases)
  case 1
  show ?case
  proof (cases "map_of xs k")
    case (Some e)
    have "length (AList.delete k xs) < length xs"
      using Some by (auto simp: AList.delete_eq dest!: map_of_SomeD intro!: length_filter_less)
    with Some show ?thesis
      by (simp add: spec_Get_def total_size_delete [OF assms Some])
  qed (simp add: spec_Get_def)
qed

lemma lru_inv_Get: "lru_inv c \<Longrightarrow> lru_inv (snd (lru_Get now k c))"
  using lru_Get_refines [of c now k] spec_Get_shrinks [OF lru_wf_keys, of c now k]
  by (auto simp: lru_inv_def within_bounds_contents)

lemma lru_inv_Set: "lru_wf c \<Longrightarrow> lru_inv (lru_Set k e c)"
  using lru_Set_refines [of c k e]
  by (simp add: lru_inv_def within_bounds_contents spec_Set_def trim_fits)

lemma lru_inv_New: "lru_inv (NewLRU me mb)"
  by (auto simp: lru_inv_def lru_wf_def within_bounds_def NewLRU_def lru_Len_def lru_Bytes_def contents_def)

interpretation lrum: invariant_machine lru_step lru_inv
proof
  fix c ev assume "lru_inv c"
  then show "lru_inv (lru_step ev c)"
    by (cases ev) (simp_all add: lru_inv_Get lru_inv_Set lru_inv_def [of c])
qed

lemma lru_run_refines:
  assumes "lru_wf c"
  shows "lru_wf (fold lru_step evs c) \<and>
    contents (fold lru_step evs c) = fold (spec_step (maxEntries c) (maxBytes c)) evs (contents c)"
  using assms
proof (induction evs arbitrary: c)
  case (Cons ev evs)
  have "lru_wf (lru_step ev c)" "maxEntries (lru_step ev c) = maxEntries c"
    "maxBytes (lru_step ev c) = maxBytes c"
    "contents (lru_step ev c) = spec_step (maxEntries c) (maxBytes c) ev (contents c)"
    using lru_refines [OF Cons.prems] by (cases ev; simp)+
  with Cons.IH [of "lru_step ev c"] show ?case by simp
qed simp

section \<open>The interface used by the cache middleware\<close>

text \<open>
  What \<^verbatim>\<open>middleware.Cache\<close> relies on: a hit is an unexpired entry of the store, and the
  store only ever holds entries that were put there under that key.
\<close>

locale cache_store =
  fixes get :: "time \<Rightarrow> string \<Rightarrow> 'c \<Rightarrow> entry option \<times> 'c"
    and set_entry :: "string \<Rightarrow> entry \<Rightarrow> 'c \<Rightarrow> 'c"
    and look :: "'c \<Rightarrow> string \<rightharpoonup> entry"
    and invar :: "'c \<Rightarrow> bool"
  assumes get_result: "invar c \<Longrightarrow>
      fst (get now k c) = (case look c k of Some e \<Rightarrow> if now > e_ExpiresAt e then None else Some e | None \<Rightarrow> None)"
    and get_keeps: "invar c \<Longrightarrow> look (snd (get now k c)) \<subseteq>\<^sub>m look c"
    and set_keeps: "invar c \<Longrightarrow> look (set_entry k e c) \<subseteq>\<^sub>m (look c)(k \<mapsto> e)"
    and get_invar: "invar c \<Longrightarrow> invar (snd (get now k c))"
    and set_invar: "invar c \<Longrightarrow> invar (set_entry k e c)"
begin

definition all_entries :: "(string \<Rightarrow> entry \<Rightarrow> bool) \<Rightarrow> 'c \<Rightarrow> bool" where
  "all_entries P c \<longleftrightarrow> invar c \<and> (\<forall>k e. look c k = Some e \<longrightarrow> P k e)"

lemma hit_stored: "invar c \<Longrightarrow> fst (get now k c) = Some e \<Longrightarrow> look c k = Some e \<and> now \<le> e_ExpiresAt e"
  by (auto simp: get_result split: option.splits if_splits)

lemma all_entries_get: "all_entries P c \<Longrightarrow> all_entries P (snd (get now k c))"
  using get_keeps [of c now k] by (auto simp: all_entries_def get_invar map_le_def dom_def)

lemma all_entries_set: "all_entries P c \<Longrightarrow> P k e \<Longrightarrow> all_entries P (set_entry k e c)"
proof -
  assume c: "all_entries P c" and P: "P k e"
  then have "invar c" by (simp add: all_entries_def)
  then have le: "look (set_entry k e c) \<subseteq>\<^sub>m (look c)(k \<mapsto> e)" and inv: "invar (set_entry k e c)"
    by (simp_all add: set_keeps set_invar)
  have "P k' e'" if "look (set_entry k e c) k' = Some e'" for k' e'
  proof -
    have "((look c)(k \<mapsto> e)) k' = Some e'"
      using le that unfolding map_le_def by (metis domI)
    then show ?thesis using c P by (cases "k' = k") (auto simp: all_entries_def)
  qed
  with inv show ?thesis by (simp add: all_entries_def)
qed

lemma all_entries_hit: "all_entries P c \<Longrightarrow> fst (get now k c) = Some e \<Longrightarrow> P k e"
  using hit_stored by (auto simp: all_entries_def)

end

lemma map_of_prefix: "prefix xs ys \<Longrightarrow> distinct (map fst ys) \<Longrightarrow> map_of xs \<subseteq>\<^sub>m map_of ys"
  by (auto simp: prefix_def map_le_def map_add_def split: option.split)

lemma spec_Set_keeps:
  "distinct (map fst xs) \<Longrightarrow> map_of (spec_Set me mb k e xs) \<subseteq>\<^sub>m (map_of xs)(k \<mapsto> e)"
  using map_of_prefix [OF trim_prefix, of "(k, e) # AList.delete k xs" me mb]
  by (auto simp: spec_Set_def delete_conv' delete_keys distinct_removeAll)

lemma spec_Get_keeps: "map_of (snd (spec_Get now k xs)) \<subseteq>\<^sub>m map_of xs"
  by (auto simp: spec_Get_def delete_conv' map_le_def split: option.splits if_splits)

interpretation lru: cache_store lru_Get lru_Set "\<lambda>c. map_of (contents c)" lru_inv
proof (unfold_locales, goal_cases)
  case (1 c now k)
  then show ?case
    by (simp add: lru_inv_def lru_Get_refines spec_Get_def split: option.split)
next
  case (2 c now k)
  then show ?case by (simp add: lru_inv_def lru_Get_refines spec_Get_keeps)
next
  case (3 c k e)
  then show ?case by (simp add: lru_inv_def lru_Set_refines spec_Set_keeps lru_wf_keys)
next
  case (4 c now k)
  then show ?case by (rule lru_inv_Get)
next
  case (5 c k e)
  then show ?case by (simp add: lru_inv_def [of c] lru_inv_Set)
qed

text \<open>
  If the new entry alone fits the byte bound, a \<open>Get\<close> of its key right after the \<open>Set\<close>
  returns it for as long as it has not expired, whatever the cache held before.
\<close>

lemma Get_after_Set:
  assumes "lru_inv c" and "maxBytes c \<le> 0 \<or> Size (Some e) \<le> maxBytes c" and "now \<le> e_ExpiresAt e"
  shows "fst (lru_Get now k (lru_Set k e c)) = Some e"
proof -
  let ?me = "maxEntries c" and ?mb = "maxBytes c"
  let ?new = "(k, e) # AList.delete k (contents c)"
  let ?cut = "if ?me > 0 then take (nat ?me) ?new else ?new"
  have one: "prefix [(k, e)] ?cut" by (cases "nat ?me") auto
  have "trim_bytes ?mb ?cut \<noteq> []"
  proof
    assume "trim_bytes ?mb ?cut = []"
    then have "?mb > 0 \<and> total_size [(k, e)] > ?mb"
      using trim_bytes_maximal [OF one, of ?mb] by simp
    with assms(2) show False by simp
  qed
  moreover have "prefix (trim ?me ?mb ?new) ?new" by (rule trim_prefix)
  ultimately have "map_of (trim ?me ?mb ?new) k = Some e"
    by (cases "trim ?me ?mb ?new") (auto simp: trim_def)
  moreover have "lru_wf (lru_Set k e c)" "contents (lru_Set k e c) = trim ?me ?mb ?new"
    using assms(1) by (simp_all add: lru_inv_def lru_refines spec_Set_def)
  ultimately show ?thesis
    using assms(3) by (simp add: lru_Get_refines spec_Get_def)
qed

section \<open>Properties\<close>

text \<open>
  C22: in every state that any sequence of \<open>Get\<close> and \<open>Set\<close> calls can reach from
  \<open>NewLRU\<close>, the list, the index and the byte counter agree (every key is indexed to its one
  list element, the counter is the sum of the body sizes) and both configured bounds hold.
\<close>
theorem lru_reachable_inv: "lru_inv (fold lru_step evs (NewLRU me mb))"
  by (rule lrum.run_inv [OF lru_inv_New])

text \<open>
  C5: the cache refines the recency list: after any sequence of calls a lookup returns exactly
  what the specification returns, and the stored entries are those of the specification, in
  the same order of recency.
\<close>
theorem lru_refines_recency_list:
  "let c = fold lru_step evs (NewLRU me mb); xs = fold (spec_step me mb) evs []
   in fst (lru_Get now k c) = fst (spec_Get now k xs) \<and>
      contents (snd (lru_Get now k c)) = snd (spec_Get now k xs) \<and>
      contents (lru_Set k e c) = spec_Set me mb k e xs"
proof -
  have wf: "lru_wf (NewLRU me mb)" using lru_inv_New by (simp add: lru_inv_def)
  have new: "contents (NewLRU me mb) = []" "maxEntries (NewLRU me mb) = me"
    "maxBytes (NewLRU me mb) = mb"
    by (simp_all add: NewLRU_def contents_def)
  have fields: "maxEntries (fold lru_step evs c) = maxEntries c \<and> maxBytes (fold lru_step evs c) = maxBytes c"
    if "lru_wf c" for c
    using that
  proof (induction evs arbitrary: c)
    case (Cons ev evs)
    have "lru_wf (lru_step ev c)" using lru_refines [OF Cons.prems] by (cases ev) simp_all
    with Cons.IH lru_refines [OF Cons.prems] show ?case by (cases ev) simp_all
  qed simp
  show ?thesis
    using lru_run_refines [OF wf, of evs] fields [OF wf] new
    by (simp add: Let_def lru_refines)
qed

text \<open>
  Eviction keeps as much as fits. What is left after a \<open>Set\<close> is a prefix of the new
  entry followed by the other entries in order of recency, so only least recently used ones
  go; and every longer prefix would break one of the two bounds.
\<close>
lemma lru_Set_evicts_least_recent:
  assumes "lru_inv c"
  shows "let new = (k, e) # AList.delete k (contents c); kept = contents (lru_Set k e c)
    in prefix kept new \<and>
       (\<forall>ys. prefix ys new \<and> length kept < length ys \<longrightarrow>
          (maxEntries c > 0 \<and> int (length ys) > maxEntries c) \<or>
          (maxBytes c > 0 \<and> total_size ys > maxBytes c))"
proof -
  let ?new = "(k, e) # AList.delete k (contents c)"
  let ?me = "maxEntries c" and ?mb = "maxBytes c"
  have kept: "contents (lru_Set k e c) = trim ?me ?mb ?new"
    using assms by (simp add: lru_inv_def lru_refines spec_Set_def)
  have "?mb > 0 \<and> total_size ys > ?mb"
    if "prefix ys ?new" "length (trim ?me ?mb ?new) < length ys"
      "\<not> (?me > 0 \<and> int (length ys) > ?me)" for ys
  proof -
    have "prefix ys (if ?me > 0 then take (nat ?me) ?new else ?new)"
      using that(1,3) by (auto simp: prefix_def take_append not_less le_nat_iff)
    from trim_bytes_maximal [OF this, of ?mb] that(2) show ?thesis by (simp add: trim_def)
  qed
  then show ?thesis unfolding Let_def kept using trim_prefix by blast
qed

lemma trim_bytes_overflow:
  "mb > 0 \<Longrightarrow> Size (Some e) > mb \<Longrightarrow> trim_bytes mb ((k, e) # xs) = []"
proof (induction xs rule: rev_induct)
  case Nil
  then show ?case by (simp add: trim_bytes.simps [of mb "[(k, e)]"] trim_bytes.simps [of mb "[]"])
next
  case (snoc x xs)
  have "total_size ((k, e) # xs @ [x]) = Size (Some e) + total_size xs + Size (Some (snd x))"
    by (cases x) simp
  then have "total_size ((k, e) # xs @ [x]) > mb"
    using snoc.prems Size_nonneg [of "Some (snd x)"] total_size_nonneg [of xs] by linarith
  with snoc show ?case
    by (simp add: trim_bytes.simps [of mb "(k, e) # xs @ [x]"] butlast_append)
qed

text \<open>
  An entry whose body alone exceeds \<open>maxBytes\<close> is not merely refused: storing it
  evicts every other entry as well, so the cache is empty afterwards.
\<close>
lemma lru_Set_oversized_empties:
  assumes "lru_inv c" and "0 < maxBytes c" and "maxBytes c < Size (Some e)"
  shows "lru_Len (lru_Set k e c) = 0 \<and> lru_Bytes (lru_Set k e c) = 0"
proof -
  have "contents (lru_Set k e c) = trim (maxEntries c) (maxBytes c) ((k, e) # AList.delete k (contents c))"
    using assms(1) by (simp add: lru_inv_def lru_refines spec_Set_def)
  also have "\<dots> = []"
    using trim_bytes_overflow [OF assms(2,3)]
    by (cases "nat (maxEntries c)") (simp_all add: trim_def)
  finally show ?thesis
    using lru_inv_Set [of c k e] assms(1) length_contents [of "lru_Set k e c"]
    by (simp add: lru_inv_def lru_wf_def [of "lru_Set k e c"] lru_Len_def lru_Bytes_def)
qed

end
