(* ===== verification/Go_Url.thy ===== *)
theory Go_Url
  imports Go_Strings "HOL-Library.List_Lexorder" "HOL-Library.Char_ord"
begin

text \<open>
  The query functions of Go's \<^verbatim>\<open>net/url\<close>: \<open>QueryUnescape\<close>, \<open>ParseQuery\<close>, \<open>QueryEscape\<close> and
  \<open>Values.Encode\<close>. A \<^verbatim>\<open>url.Values\<close> is the list of its pairs in the order they were added.
  Strings are ordered byte by byte, as Go compares them and \<^verbatim>\<open>sort.Strings\<close> sorts them.
\<close>

definition unhex :: "char \<Rightarrow> nat option" where
  "unhex c =
     (let n = of_char c :: nat
      in if 48 \<le> n \<and> n \<le> 57 then Some (n - 48)
         else if 97 \<le> n \<and> n \<le> 102 then Some (n - 97 + 10)
         else if 65 \<le> n \<and> n \<le> 70 then Some (n - 65 + 10)
         else None)"

fun QueryUnescape :: "string \<Rightarrow> string option" where
  "QueryUnescape [] = Some []"
| "QueryUnescape (c # cs) =
     (if c = CHR ''%'' then
        (case cs of
           a # b # rest \<Rightarrow>
             (case (unhex a, unhex b) of
                (Some x, Some y) \<Rightarrow>
                  (case QueryUnescape rest of
                     None \<Rightarrow> None | Some t \<Rightarrow> Some (char_of (16 * x + y) # t))
              | _ \<Rightarrow> None)
         | _ \<Rightarrow> None)
      else (case QueryUnescape cs of
              None \<Rightarrow> None | Some t \<Rightarrow> Some ((if c = CHR ''+'' then CHR '' '' else c) # t)))"

type_synonym url_values = "(string \<times> string) list"

text \<open>One piece between two ampersands; pieces that do not parse are skipped.\<close>

definition parse_pair :: "string \<Rightarrow> url_values" where
  "parse_pair piece =
     (if CHR '';'' \<in> set piece \<or> piece = [] then []
      else
        let (k, v, _) = Cut (CHR ''='') piece
        in case (QueryUnescape k, QueryUnescape v) of
             (Some k, Some v) \<Rightarrow> [(k, v)]
           | _ \<Rightarrow> [])"

text \<open>\<^verbatim>\<open>net/url\<close> gives up on a query with more pieces than this.\<close>

definition maxQueryParams :: nat where
  "maxQueryParams = 10000"

definition ParseQuery :: "string \<Rightarrow> url_values" where
  "ParseQuery query =
     (let pieces = SplitSeq (CHR ''&'') query
      in if length pieces > maxQueryParams then [] else concat (map parse_pair pieces))"

definition unreserved :: "char \<Rightarrow> bool" where
  "unreserved c \<longleftrightarrow>
     (let n = of_char c :: nat
      in (48 \<le> n \<and> n \<le> 57) \<or> (65 \<le> n \<and> n \<le> 90) \<or> (97 \<le> n \<and> n \<le> 122) \<or>
         c \<in> {CHR ''-'', CHR ''_'', CHR ''.'', CHR ''~''})"

definition upper_hex :: "nat \<Rightarrow> char" where
  "upper_hex n = ''0123456789ABCDEF'' ! n"

definition QueryEscape :: "string \<Rightarrow> string" where
  "QueryEscape s = concat (map (\<lambda>c.
     if unreserved c then [c]
     else if c = CHR '' '' then ''+''
     else let n = of_char c :: nat in [CHR ''%'', upper_hex (n div 16), upper_hex (n mod 16)]) s)"

text \<open>The keys of the values, sorted, and the values of a key, in order.\<close>

definition values_keys :: "url_values \<Rightarrow> string list" where
  "values_keys q = sort (remdups (map fst q))"

definition values_of :: "url_values \<Rightarrow> string \<Rightarrow> string list" where
  "values_of q k = map snd (filter (\<lambda>kv. fst kv = k) q)"

definition values_Encode :: "url_values \<Rightarrow> string" where
  "values_Encode q =
     Join (concat (map (\<lambda>k. map (\<lambda>v. QueryEscape k @ ''='' @ QueryEscape v) (values_of q k)) (values_keys q))) ''&''"

section \<open>Laws\<close>

lemma unhex_upper_hex: "n < 16 \<Longrightarrow> unhex (upper_hex n) = Some n"
proof -
  have "\<forall>n\<in>set [0..<16]. unhex (upper_hex n) = Some n" by code_simp
  then show "n < 16 \<Longrightarrow> unhex (upper_hex n) = Some n" by simp
qed

lemma unescape_escape_append:
  "QueryUnescape (QueryEscape s @ t) = map_option (\<lambda>u. s @ u) (QueryUnescape t)"
proof (induction s)
  case (Cons c s)
  have "of_char c div 16 < (16 :: nat)" by (rule less_mult_imp_div_less) simp
  then have "unhex (upper_hex (of_char c div 16)) = Some (of_char c div 16)"
    "unhex (upper_hex (of_char c mod 16)) = Some (of_char c mod 16)"
    by (simp_all add: unhex_upper_hex)
  moreover have "char_of (16 * (of_char c div 16 :: nat) + of_char c mod 16) = c"
    by (simp only: mult_div_mod_eq char_of_char)
  moreover have "c \<noteq> CHR ''%'' \<and> c \<noteq> CHR ''+''" if "unreserved c"
    using that by (auto simp: unreserved_def Let_def)
  ultimately show ?case
    using Cons.IH by (cases "QueryUnescape t") (auto simp: QueryEscape_def Let_def)
qed (cases "QueryUnescape t"; simp add: QueryEscape_def)

lemma QueryUnescape_QueryEscape: "QueryUnescape (QueryEscape s) = Some s"
  using unescape_escape_append [of s "[]"] by simp

end
