(* ===== verification/Auth.thy ===== *)
theory Auth
  imports Http_Model
begin

text \<open>
  \<^verbatim>\<open>internal/middleware/auth.go\<close>. The JWT library is a parameter: \<open>ParseWithClaims\<close> takes the
  token string, the key function and the list of valid methods and yields an error or a token.
  \<open>jwt_sound\<close> is its documented promise: a token it returns has one of the valid methods and a
  signature that verifies under the key the key function gave for it. Decoded claims are JSON
  values.
\<close>

section \<open>Tokens and claims\<close>

datatype json =
    JNull
  | JBool bool
  | JNumber real
  | JString string
  | JArray "json list"
  | JObject "(string \<times> json) list"

datatype signing_method = SigningMethodRSA | SigningMethodOther

datatype token_claims = MapClaims "string \<rightharpoonup> json" | OtherClaims

record token =
  tk_Method :: signing_method
  tk_alg :: string
  tk_Claims :: token_claims

datatype auth_error =
    UnexpectedMethod string
  | MissingSub
  | MissingRoles
  | CorruptedRoles
  | NoMapClaims

type_synonym 'key keyfunc = "token \<Rightarrow> auth_error + 'key"
type_synonym ('key, 'e) jwt_parser = "string \<Rightarrow> 'key keyfunc \<Rightarrow> string list \<Rightarrow> 'e + token"

definition newClaimsContext :: "req_ctx \<Rightarrow> claims \<Rightarrow> req_ctx" where
  "newClaimsContext ctx claims = ctx\<lparr>ctx_claims := Some claims\<rparr>"

definition ClaimsFromContext :: "req_ctx \<Rightarrow> claims option" where
  "ClaimsFromContext ctx = ctx_claims ctx"

definition parseAndValidateToken ::
  "('key, 'e) jwt_parser \<Rightarrow> string \<Rightarrow> 'key \<Rightarrow> 'e + token" where
  "parseAndValidateToken ParseWithClaims tokenStr publicKey =
     ParseWithClaims tokenStr
       (\<lambda>t. if tk_Method t \<noteq> SigningMethodRSA then Inl (UnexpectedMethod (tk_alg t)) else Inr publicKey)
       [''RS256'']"

fun role_strings :: "json list \<Rightarrow> auth_error + string list" where
  "role_strings [] = Inr []"
| "role_strings (rawRole # rest) =
     (case rawRole of
        JString role \<Rightarrow>
          (case role_strings rest of Inl e \<Rightarrow> Inl e | Inr roles \<Rightarrow> Inr (role # roles))
      | _ \<Rightarrow> Inl CorruptedRoles)"

definition extractClaims :: "token \<Rightarrow> auth_error + claims" where
  "extractClaims token =
     (case tk_Claims token of
        MapClaims claims \<Rightarrow>
          (case claims ''sub'' of
             Some (JString sub) \<Rightarrow>
               (case claims ''roles'' of
                  Some (JArray rawRoles) \<Rightarrow>
                    (case role_strings rawRoles of
                       Inl e \<Rightarrow> Inl e
                     | Inr roles \<Rightarrow> Inr \<lparr>Subject = sub, Roles = roles\<rparr>)
                | _ \<Rightarrow> Inl MissingRoles)
           | _ \<Rightarrow> Inl MissingSub)
      | OtherClaims \<Rightarrow> Inl NoMapClaims)"

definition unauthorized :: "string \<Rightarrow> reply" where
  "unauthorized msg = (writeJSON 401 [(''error'', msg)], Returned_ok)"

definition JWTAuth :: "('key, 'e) jwt_parser \<Rightarrow> 'key \<Rightarrow> 's middleware" where
  "JWTAuth ParseWithClaims publicKey next h r s =
     (let authHeader = header_Get (r_Header r) ''Authorization'';
          (tokenStr, ok) = CutPrefix authHeader ''Bearer ''
      in if \<not> ok then (unauthorized ''missing token'', s)
         else (case parseAndValidateToken ParseWithClaims tokenStr publicKey of
                 Inl e \<Rightarrow> (unauthorized ''invalid token'', s)
               | Inr token \<Rightarrow>
                   (case extractClaims token of
                      Inl e \<Rightarrow> (unauthorized ''invalid token'', s)
                    | Inr claims \<Rightarrow> next h (r\<lparr>r_ctx := newClaimsContext (r_ctx r) claims\<rparr>) s)))"

fun any_role :: "string list \<Rightarrow> string list \<Rightarrow> bool" where
  "any_role [] have_roles = False"
| "any_role (want # rest) have_roles = (if want \<in> set have_roles then True else any_role rest have_roles)"

definition RequireAnyRole :: "string list \<Rightarrow> 's middleware" where
  "RequireAnyRole roles next h r s =
     (case ClaimsFromContext (r_ctx r) of
        None \<Rightarrow> (unauthorized ''missing token'', s)
      | Some claims \<Rightarrow>
          if any_role roles (Roles claims) then next h r s
          else ((writeJSON 403 [(''error'', ''forbidden'')], Returned_ok), s))"

section \<open>Laws\<close>

definition jwt_sound :: "('key \<Rightarrow> string \<Rightarrow> bool) \<Rightarrow> ('key, 'e) jwt_parser \<Rightarrow> bool" where
  "jwt_sound verify ParseWithClaims \<longleftrightarrow>
     (\<forall>ts kf methods t. ParseWithClaims ts kf methods = Inr t \<longrightarrow>
        tk_alg t \<in> set methods \<and> (\<exists>key. kf t = Inr key \<and> verify key ts))"

lemma any_role_iff: "any_role roles have_roles \<longleftrightarrow> set roles \<inter> set have_roles \<noteq> {}"
  by (induction roles) auto

lemma role_strings_spec: "role_strings js = Inr roles \<longleftrightarrow> js = map JString roles"
proof (induction js arbitrary: roles)
  case (Cons j js)
  then show ?case
    by (cases j; cases roles; cases "role_strings js") auto
qed auto

lemma extractClaims_spec:
  "extractClaims token = Inr c \<longleftrightarrow>
     (\<exists>m. tk_Claims token = MapClaims m \<and> m ''sub'' = Some (JString (Subject c)) \<and>
          m ''roles'' = Some (JArray (map JString (Roles c))))"
proof -
  have inj: "map JString xs = map JString ys \<longleftrightarrow> xs = ys" for xs ys
    by (rule inj_map_eq_map) (simp add: inj_def)
  have "role_strings (map JString roles) = Inr roles" for roles
    by (simp add: role_strings_spec)
  note role_strings_map = this
  show ?thesis
    by (cases c) (auto simp: extractClaims_def role_strings_spec role_strings_map inj
        split: token_claims.splits option.splits json.splits sum.split)
qed

lemma parse_sound:
  assumes "jwt_sound verify P" and "parseAndValidateToken P ts key = Inr t"
  shows "tk_alg t = ''RS256'' \<and> tk_Method t = SigningMethodRSA \<and> verify key ts"
proof -
  from assms have "tk_alg t \<in> set [''RS256'']" and
    "\<exists>k. (if tk_Method t \<noteq> SigningMethodRSA then Inl (UnexpectedMethod (tk_alg t)) else Inr key) = Inr k \<and>
       verify k ts"
    unfolding jwt_sound_def parseAndValidateToken_def by blast+
  then show ?thesis by (auto split: if_splits)
qed

lemma JWTAuth_cases:
  obtains (refused) msg where "JWTAuth P key next h r s = (unauthorized msg, s)"
  | (admitted) ts t c where "header_Get (r_Header r) ''Authorization'' = ''Bearer '' @ ts"
      "parseAndValidateToken P ts key = Inr t" "extractClaims t = Inr c"
      "JWTAuth P key next h r s = next h (r\<lparr>r_ctx := newClaimsContext (r_ctx r) c\<rparr>) s"
proof -
  obtain ts ok where cut: "CutPrefix (header_Get (r_Header r) ''Authorization'') ''Bearer '' = (ts, ok)"
    by fastforce
  show thesis
  proof (cases ok)
    case False
    with cut refused [of "''missing token''"] show ?thesis by (simp add: JWTAuth_def)
  next
    case True
    with cut have auth: "header_Get (r_Header r) ''Authorization'' = ''Bearer '' @ ts"
      by (simp add: CutPrefix_ok_iff)
    consider (ok) t c where "parseAndValidateToken P ts key = Inr t" "extractClaims t = Inr c"
      | (bad) "JWTAuth P key next h r s = (unauthorized ''invalid token'', s)"
      using cut True by (force simp: JWTAuth_def split: sum.splits)
    then show ?thesis
    proof cases
      case ok
      with cut True have
        "JWTAuth P key next h r s = next h (r\<lparr>r_ctx := newClaimsContext (r_ctx r) c\<rparr>) s"
        by (simp add: JWTAuth_def)
      from admitted [OF auth ok this] show ?thesis .
    next
      case bad
      from refused [OF bad] show ?thesis .
    qed
  qed
qed

section \<open>Properties\<close>

text \<open>
  C12: authentication. If the JWT library keeps its promise, a request either is answered 401
  without reaching the next handler and without a change of state, or carries a bearer token
  that verifies under the configured public key with RS256, and the next handler sees exactly
  the subject and the roles of that token in the request's context.
\<close>
theorem JWTAuth_admits_only_verified:
  assumes "jwt_sound verify P"
  shows "(\<exists>msg. JWTAuth P key next h r s = (unauthorized msg, s)) \<or>
    (\<exists>ts t m c. header_Get (r_Header r) ''Authorization'' = ''Bearer '' @ ts \<and>
       parseAndValidateToken P ts key = Inr t \<and> verify key ts \<and>
       tk_alg t = ''RS256'' \<and> tk_Method t = SigningMethodRSA \<and>
       tk_Claims t = MapClaims m \<and> m ''sub'' = Some (JString (Subject c)) \<and>
       m ''roles'' = Some (JArray (map JString (Roles c))) \<and>
       JWTAuth P key next h r s = next h (r\<lparr>r_ctx := newClaimsContext (r_ctx r) c\<rparr>) s)"
  using JWTAuth_cases [of P key "next" h r s]
proof cases
  case (admitted ts t c)
  then obtain m where m: "tk_Claims t = MapClaims m"
    "m ''sub'' = Some (JString (Subject c))" "m ''roles'' = Some (JArray (map JString (Roles c)))"
    by (auto simp: extractClaims_spec)
  show ?thesis
    by (rule disjI2, rule exI [of _ ts], rule exI [of _ t], rule exI [of _ m], rule exI [of _ c])
      (simp add: admitted m parse_sound [OF assms admitted(2)])
qed blast

definition example_token :: token where
  "example_token = \<lparr>tk_Method = SigningMethodRSA, tk_alg = ''RS256'',
     tk_Claims = MapClaims [''sub'' \<mapsto> JString ''alice'', ''roles'' \<mapsto> JArray [JString ''admin'']]\<rparr>"

definition example_parser :: "(nat, unit) jwt_parser" where
  "example_parser ts kf methods =
     (if ts = ''t7'' then
        (case kf example_token of
           Inr key \<Rightarrow> if key = 7 \<and> ''RS256'' \<in> set methods then Inr example_token else Inl ()
         | Inl _ \<Rightarrow> Inl ())
      else Inl ())"

definition bearer :: "string \<Rightarrow> request" where
  "bearer ts = (simple_request ''GET'' ''/api'' [])
     \<lparr>r_Header := header_Set ''Authorization'' (''Bearer '' @ ts) empty_header\<rparr>"

lemma example_parser_sound: "jwt_sound (\<lambda>k ts. k = 7 \<and> ts = ''t7'') example_parser"
  by (auto simp: jwt_sound_def example_parser_def example_token_def split: if_splits sum.splits)

lemma bearer_header: "header_Get (r_Header (bearer ts)) ''Authorization'' = ''Bearer '' @ ts"
  by (simp add: bearer_def header_Get_Set)

theorem JWTAuth_admits_only_verified_witness:
  "jwt_sound (\<lambda>k ts. k = 7 \<and> ts = ''t7'') example_parser \<and>
   (\<exists>msg. JWTAuth example_parser 7 (\<lambda>h r s. ((writeJSON 200 [], Returned_ok), s)) empty_header
      (bearer ''t8'') (0::nat) = (unauthorized msg, 0))"
  using JWTAuth_admits_only_verified [OF example_parser_sound, of 7
      "\<lambda>h r s. ((writeJSON 200 [], Returned_ok), s)" empty_header "bearer ''t8''" "0::nat"]
    example_parser_sound
  by (simp add: bearer_header)

text \<open>
  Role checks. Behind \<open>RequireAnyRole\<close> the next handler runs exactly when the context
  carries claims that hold at least one of the required roles; otherwise the answer is 401
  (no claims) or 403, and the state is unchanged.
\<close>
lemma RequireAnyRole_spec:
  "RequireAnyRole roles next h r s =
     (case ctx_claims (r_ctx r) of
        None \<Rightarrow> (unauthorized ''missing token'', s)
      | Some c \<Rightarrow>
          if set roles \<inter> set (Roles c) \<noteq> {} then next h r s
          else ((writeJSON 403 [(''error'', ''forbidden'')], Returned_ok), s))"
  by (simp add: RequireAnyRole_def ClaimsFromContext_def any_role_iff split: option.split)

end
