(* ===== verification/Middleware.thy ===== *)
theory Middleware
  imports Auth
begin

text \<open>
  The middlewares of \<^verbatim>\<open>internal/middleware\<close> that wrap every request of the gateway:
  \<^verbatim>\<open>recoverer.go\<close>, \<^verbatim>\<open>requestid.go\<close>, \<^verbatim>\<open>logger.go\<close>, \<^verbatim>\<open>maxbody.go\<close>, \<^verbatim>\<open>tracing.go\<close>,
  \<^verbatim>\<open>concurrencylimit.go\<close>, \<^verbatim>\<open>ratelimit.go\<close>, and the one of \<^verbatim>\<open>internal/metrics/metrics.go\<close>.

  A middleware with state of its own (a semaphore, a limiter, counters, finished spans) adds a
  component in front of the state of the handler it wraps. The logger, the clock, the random
  source, the tracer and the propagator are parameters that act on the state of the wrapped
  handler. The three writers that record a status share the locale \<open>status_recorder\<close>.
\<close>

unbundle bit_operations_syntax

section \<open>Status-recording writers\<close>

text \<open>
  Operations that set the status once, before the body: what a handler is expected to do.
\<close>

fun sets_status :: "wop \<Rightarrow> bool" where
  "sets_status (WriteHeader c) = True"
| "sets_status op = False"

fun one_status :: "wop list \<Rightarrow> bool" where
  "one_status [] = True"
| "one_status (WriteHeader c # ops) \<longleftrightarrow> 200 \<le> c \<and> (\<forall>op\<in>set ops. \<not> sets_status op)"
| "one_status (Write b # ops) \<longleftrightarrow> (\<forall>op\<in>set ops. \<not> sets_status op)"
| "one_status (HeaderSet k v # ops) = one_status ops"
| "one_status (HeaderAdd k v # ops) = one_status ops"
| "one_status (HeaderDel k # ops) = one_status ops"
| "one_status (HeaderAddAll g # ops) = one_status ops"

text \<open>\<^verbatim>\<open>loggerWriter\<close>, with the number of bytes the wrapped writer accepts.\<close>

record loggerWriter =
  lw_under :: rwriter
  lw_status :: int
  lw_bytes :: int

definition rw_accepts :: "string \<Rightarrow> rwriter \<Rightarrow> int" where
  "rw_accepts b w = int (length (rw_body (rw_Write b w))) - int (length (rw_body w))"

fun logger_op :: "wop \<Rightarrow> loggerWriter \<Rightarrow> loggerWriter" where
  "logger_op (WriteHeader code) lw =
     lw\<lparr>lw_status := code, lw_under := rw_WriteHeader code (lw_under lw)\<rparr>"
| "logger_op (Write b) lw =
     (let n = rw_accepts b (lw_under lw)
      in lw\<lparr>lw_under := rw_Write b (lw_under lw), lw_bytes := lw_bytes lw + n\<rparr>)"
| "logger_op op lw = lw\<lparr>lw_under := rw_op op (lw_under lw)\<rparr>"

definition new_loggerWriter :: "header \<Rightarrow> loggerWriter" where
  "new_loggerWriter h = \<lparr>lw_under = new_rwriter\<lparr>rw_header := h\<rparr>, lw_status = 200, lw_bytes = 0\<rparr>"

text \<open>\<^verbatim>\<open>metricsWriter\<close> and \<^verbatim>\<open>tracingWriter\<close> record the status only.\<close>

fun metrics_op :: "wop \<Rightarrow> int \<Rightarrow> int" where
  "metrics_op (WriteHeader code) st = code"
| "metrics_op op st = st"

fun tracing_op :: "wop \<Rightarrow> int \<Rightarrow> int" where
  "tracing_op (WriteHeader code) st = code"
| "tracing_op op st = st"

locale status_recorder =
  fixes step :: "wop \<Rightarrow> 'w \<Rightarrow> 'w" and status :: "'w \<Rightarrow> int"
  assumes records: "status (step (WriteHeader c) w) = c"
    and keeps: "\<not> sets_status op \<Longrightarrow> status (step op w) = status w"
begin

lemma keeps_all: "\<forall>op\<in>set ops. \<not> sets_status op \<Longrightarrow> status (fold step ops w) = status w"
  by (induction ops arbitrary: w) (simp_all add: keeps)

lemma agrees_from:
  "one_status ops \<Longrightarrow> status w = 200 \<Longrightarrow> rw_status rw = None \<Longrightarrow>
   (case rw_status (fold rw_op ops rw) of None \<Rightarrow> 200 | Some c \<Rightarrow> c) = status (fold step ops w)"
proof (induction ops arbitrary: w rw rule: one_status.induct)
  case (2 c ops)
  have "rw_status (fold rw_op (WriteHeader c # ops) rw) = Some c"
    using 2 by (intro rw_status_after_WriteHeader) simp_all
  then show ?case using 2 by (simp add: keeps_all records)
next
  case (3 b ops)
  have "rw_status (rw_op (Write b) rw) = Some 200"
    using 3 by (simp add: rw_Write_def rw_WriteHeader_def Let_def)
  from rw_committed [OF this, of ops] show ?case using 3 by (simp add: keeps_all keeps)
next
  case (4 k v ops)
  from "4.IH" [of "step (HeaderSet k v) w" "rw_op (HeaderSet k v) rw"] "4.prems" show ?case by (simp add: keeps)
next
  case (5 k v ops)
  from "5.IH" [of "step (HeaderAdd k v) w" "rw_op (HeaderAdd k v) rw"] "5.prems" show ?case by (simp add: keeps)
next
  case (6 k ops)
  from "6.IH" [of "step (HeaderDel k) w" "rw_op (HeaderDel k) rw"] "6.prems" show ?case by (simp add: keeps)
next
  case (7 g ops)
  from "7.IH" [of "step (HeaderAddAll g) w" "rw_op (HeaderAddAll g) rw"] "7.prems" show ?case by (simp add: keeps)
qed simp

text \<open>What is recorded is the status the server sends.\<close>

lemma agrees:
  assumes "one_status ops" "status w = 200"
  shows "rw_status (served ops) = Some (status (fold step ops w))"
  using agrees_from [OF assms, of new_rwriter]
  by (auto simp: served_def new_rwriter_def rw_WriteHeader_def Let_def split: option.splits)

end

interpretation lwr: status_recorder logger_op lw_status
proof
  show "lw_status (logger_op op w) = lw_status w" if "\<not> sets_status op" for op w
    using that by (cases op) (simp_all add: Let_def)
qed simp

interpretation mwr: status_recorder metrics_op "\<lambda>st. st"
proof
  show "metrics_op op w = w" if "\<not> sets_status op" for op w using that by (cases op) simp_all
qed simp

interpretation twr: status_recorder tracing_op "\<lambda>st. st"
proof
  show "tracing_op op w = w" if "\<not> sets_status op" for op w using that by (cases op) simp_all
qed simp

section \<open>Recoverer\<close>

datatype log_level = LevelInfo | LevelWarn | LevelError

datatype log_record =
    PanicRecovered panic
  | RequestLine log_level string string int real int string
  | LimiterError string

definition Recoverer :: "(log_record \<Rightarrow> 's \<Rightarrow> 's) \<Rightarrow> 's middleware" where
  "Recoverer logger next h r s =
     (case next h r s of
        ((ops, Panicked v), s') \<Rightarrow>
          ((ops @ [HeaderSet ''Content-Type'' ''application/json'', WriteHeader 500,
                   Write (json_object [(''error'', ''internal server error'')])], Returned_ok),
           logger (PanicRecovered v) s')
      | ((ops, Returned_ok), s') \<Rightarrow> ((ops, Returned_ok), s'))"

section \<open>RequestID\<close>

definition newContext :: "req_ctx \<Rightarrow> string \<Rightarrow> req_ctx" where
  "newContext ctx reqID = ctx\<lparr>ctx_requestID := Some reqID\<rparr>"

definition FromContext :: "req_ctx \<Rightarrow> string option" where
  "FromContext ctx = ctx_requestID ctx"

text \<open>\<open>read\<close> is what \<^verbatim>\<open>rand.Read\<close> fills the 16 bytes with.\<close>

definition newUUID :: "'e + 8 word list \<Rightarrow> 'e + string" where
  "newUUID read =
     (case read of
        Inl err \<Rightarrow> Inl err
      | Inr uuid \<Rightarrow>
          let uuid = uuid[6 := ((uuid ! 6) AND 0x0f) OR 0x40];
              uuid = uuid[8 := ((uuid ! 8) AND 0x3f) OR 0x80]
          in Inr (EncodeToString (take 4 uuid) @ ''-'' @
                  EncodeToString (take 2 (drop 4 uuid)) @ ''-'' @
                  EncodeToString (take 2 (drop 6 uuid)) @ ''-'' @
                  EncodeToString (take 2 (drop 8 uuid)) @ ''-'' @
                  EncodeToString (take 6 (drop 10 uuid))))"

definition RequestID :: "('s \<Rightarrow> ('e + 8 word list) \<times> 's) \<Rightarrow> 's middleware" where
  "RequestID rand_Read next h r s =
     (case rand_Read s of
        (read, s) \<Rightarrow>
          (case newUUID read of
             Inl err \<Rightarrow> (([WriteHeader 500], Returned_ok), s)
           | Inr uuid \<Rightarrow>
               (case next (header_Set ''X-Request-ID'' uuid h)
                       (r\<lparr>r_ctx := newContext (r_ctx r) uuid\<rparr>) s of
                  ((ops, out), s) \<Rightarrow> ((HeaderSet ''X-Request-ID'' uuid # ops, out), s))))"

section \<open>Logger\<close>

definition log_level_for :: "int \<Rightarrow> log_level" where
  "log_level_for status = (if status \<ge> 500 then LevelError else if status \<ge> 400 then LevelWarn else LevelInfo)"

definition Logger :: "(log_record \<Rightarrow> 's \<Rightarrow> 's) \<Rightarrow> ('s \<Rightarrow> time) \<Rightarrow> 's middleware" where
  "Logger logger now next h r s =
     (let startTime = now s
      in case next h r s of
           ((ops, Panicked v), s') \<Rightarrow> ((ops, Panicked v), s')
         | ((ops, Returned_ok), s') \<Rightarrow>
             let rw = fold logger_op ops (new_loggerWriter h);
                 durationMs = real_of_int (now s' - startTime) / 1000000;
                 requestID = (case FromContext (r_ctx r) of None \<Rightarrow> [] | Some i \<Rightarrow> i)
             in ((ops, Returned_ok),
                 logger (RequestLine (log_level_for (lw_status rw)) (r_Method r) (r_Path r) (lw_status rw)
                        durationMs (lw_bytes rw) requestID) s'))"

section \<open>MaxBody\<close>

definition MaxBody :: "int \<Rightarrow> 's middleware" where
  "MaxBody limit next h r s =
     (if r_ContentLength r > limit then
        ((writeJSON 413 [(''error'', ''request body too large'')], Returned_ok), s)
      else next h (r\<lparr>r_bodyLimit := Some limit\<rparr>) s)"

text \<open>
  What a handler gets when it reads the body to its end, and whether the read ends in a
  \<^verbatim>\<open>MaxBytesError\<close>.
\<close>

definition read_body :: "request \<Rightarrow> string \<times> bool" where
  "read_body r =
     (case r_bodyLimit r of
        None \<Rightarrow> (r_Body r, False)
      | Some n \<Rightarrow> if int (length (r_Body r)) \<le> max 0 n then (r_Body r, False)
                  else (take (nat n) (r_Body r), True))"

section \<open>ConcurrencyLimit\<close>

text \<open>
  The state component is the number of tokens in the channel \<open>semaphore\<close> when the request
  arrives, that is, of other requests in flight.
\<close>

definition ConcurrencyLimit :: "int \<Rightarrow> 's handler \<Rightarrow> (nat \<times> 's) handler" where
  "ConcurrencyLimit limit next h r ns =
     (case ns of
        (sem, s) \<Rightarrow>
          if limit \<le> 0 then (case next h r s of (reply, s') \<Rightarrow> (reply, (sem, s')))
          else if int sem < limit then
            (case next h r s of (reply, s') \<Rightarrow> (reply, (sem + 1 - 1, s')))
          else (([HeaderSet ''Content-Type'' ''application/json'', HeaderSet ''Retry-After'' ''1'',
                  WriteHeader 503, Write (json_object [(''error'', ''server overloaded'')])],
                 Returned_ok), (sem, s)))"

text \<open>
  The interleaving of many requests: each is waiting to enter, running its handler, done (the
  deferred receive runs on return and on panic alike) or shed.
\<close>

datatype cl_phase = Arriving | Running | Finished outcome | Shed

record cl_state =
  cl_sem :: nat
  cl_phases :: "cl_phase list"

inductive cl_step :: "int \<Rightarrow> cl_state \<Rightarrow> cl_state \<Rightarrow> bool" for limit where
  enter: "i < length (cl_phases s) \<Longrightarrow> cl_phases s ! i = Arriving \<Longrightarrow> int (cl_sem s) < limit \<Longrightarrow>
    cl_step limit s (s\<lparr>cl_sem := cl_sem s + 1, cl_phases := (cl_phases s)[i := Running]\<rparr>)"
| shed: "i < length (cl_phases s) \<Longrightarrow> cl_phases s ! i = Arriving \<Longrightarrow> \<not> int (cl_sem s) < limit \<Longrightarrow>
    cl_step limit s (s\<lparr>cl_phases := (cl_phases s)[i := Shed]\<rparr>)"
| leave: "i < length (cl_phases s) \<Longrightarrow> cl_phases s ! i = Running \<Longrightarrow>
    cl_step limit s (s\<lparr>cl_sem := cl_sem s - 1, cl_phases := (cl_phases s)[i := Finished out]\<rparr>)"
| arrive: "cl_step limit s (s\<lparr>cl_phases := cl_phases s @ [Arriving]\<rparr>)"

inductive cl_reachable :: "int \<Rightarrow> cl_state \<Rightarrow> bool" for limit where
  cl_init: "cl_reachable limit \<lparr>cl_sem = 0, cl_phases = []\<rparr>"
| cl_more: "cl_reachable limit s \<Longrightarrow> cl_step limit s s' \<Longrightarrow> cl_reachable limit s'"

section \<open>RateLimit\<close>

text \<open>
  \<open>allow\<close> is the limiter's method, with what it reads of the outside world (its clock, the
  network) taken from the state of the wrapped handler by \<open>env\<close>.
\<close>

definition RateLimitMW ::
  "('env \<Rightarrow> string \<Rightarrow> 'l \<Rightarrow> ('e + bool) \<times> 'l) \<Rightarrow> ('s \<Rightarrow> 'env) \<Rightarrow> (request \<Rightarrow> string) \<Rightarrow>
   (log_record \<Rightarrow> 's \<Rightarrow> 's) \<Rightarrow> 's handler \<Rightarrow> ('l \<times> 's) handler" where
  "RateLimitMW allow env keyFunc logger next h r ls =
     (case ls of
        (l, s) \<Rightarrow>
          let key = keyFunc r
          in case allow (env s) key l of
               (Inl err, l') \<Rightarrow>
                 (case next h r (logger (LimiterError key) s) of (reply, s') \<Rightarrow> (reply, (l', s')))
             | (Inr allowed, l') \<Rightarrow>
                 if \<not> allowed then
                   (([HeaderSet ''Content-Type'' ''application/json'', HeaderSet ''Retry-After'' ''1'',
                      WriteHeader 429, Write (json_object [(''error'', ''rate limit exceeded'')])],
                     Returned_ok), (l', s))
                 else (case next h r s of (reply, s') \<Rightarrow> (reply, (l', s'))))"

definition KeyByIP :: "request \<Rightarrow> string" where
  "KeyByIP r = (case SplitHostPort (r_RemoteAddr r) of None \<Rightarrow> r_RemoteAddr r | Some (host, port) \<Rightarrow> host)"

definition KeyByJWTSub :: "request \<Rightarrow> string" where
  "KeyByJWTSub r =
     (case ClaimsFromContext (r_ctx r) of
        Some claims \<Rightarrow> if Subject claims \<noteq> [] then Subject claims else KeyByIP r
      | None \<Rightarrow> KeyByIP r)"

section \<open>Tracing and metrics\<close>

text \<open>
  A finished span: its attributes (missing when the handler panicked, since they are set after
  it returns) and whether its status is \<^verbatim>\<open>codes.Error\<close>. \<open>Extract\<close> and \<open>Start\<close> are the
  propagator's and the tracer's methods.
\<close>

record span =
  sp_attrs :: "(string \<times> string \<times> int) option"
  sp_error :: bool

definition Tracing ::
  "(req_ctx \<Rightarrow> header \<Rightarrow> req_ctx) \<Rightarrow> (req_ctx \<Rightarrow> req_ctx) \<Rightarrow> 's handler \<Rightarrow> (span list \<times> 's) handler" where
  "Tracing Extract Start next h r ps =
     (case ps of
        (spans, s) \<Rightarrow>
          let ctx = Start (Extract (r_ctx r) (r_Header r))
          in case next h (r\<lparr>r_ctx := ctx\<rparr>) s of
               ((ops, Panicked v), s') \<Rightarrow>
                 ((ops, Panicked v), (spans @ [\<lparr>sp_attrs = None, sp_error = False\<rparr>], s'))
             | ((ops, Returned_ok), s') \<Rightarrow>
                 let status = fold tracing_op ops 200
                 in ((ops, Returned_ok),
                     (spans @ [\<lparr>sp_attrs = Some (r_Method r, r_Path r, status),
                                sp_error = (status \<ge> 500)\<rparr>], s')))"

text \<open>
  The instruments of \<^verbatim>\<open>Metrics\<close>: a counter per method, route and status and the recorded
  durations per method and route. \<open>routePattern\<close> is what chi's route context holds once the
  wrapped handler has returned.
\<close>

record Metrics =
  requestsTotal :: "string \<times> string \<times> int \<Rightarrow> nat"
  requestDuration :: "string \<times> string \<Rightarrow> real list"

definition new_instruments :: Metrics where
  "new_instruments = \<lparr>requestsTotal = (\<lambda>_. 0), requestDuration = (\<lambda>_. [])\<rparr>"

text \<open>What the OpenTelemetry meter answers to a registration: an error, or nothing.\<close>

record 'e meter =
  Int64Counter :: "string \<Rightarrow> 'e option"
  Float64Histogram :: "string \<Rightarrow> real list \<Rightarrow> 'e option"
  Int64ObservableGauge :: "string \<Rightarrow> 'e option"
  RegisterCallback :: "'e option"

definition NewMetrics :: "'e meter \<Rightarrow> 'e + Metrics" where
  "NewMetrics mt =
     (case Int64Counter mt ''gateway.requests.total'' of
        Some err \<Rightarrow> Inl err
      | None \<Rightarrow>
          (case Float64Histogram mt ''gateway.request.duration''
                  [1/1000, 5/1000, 1/100, 25/1000, 5/100, 1/10, 25/100, 5/10, 1, 25/10, 5, 10] of
             Some err \<Rightarrow> Inl err
           | None \<Rightarrow> Inr new_instruments))"

definition metrics_Middleware ::
  "('s \<Rightarrow> time) \<Rightarrow> ('s \<Rightarrow> string) \<Rightarrow> 's handler \<Rightarrow> (Metrics \<times> 's) handler" where
  "metrics_Middleware now RoutePattern next h r ms =
     (case ms of
        (m, s) \<Rightarrow>
          let start = now s
          in case next h r s of
               ((ops, Panicked v), s') \<Rightarrow> ((ops, Panicked v), (m, s'))
             | ((ops, Returned_ok), s') \<Rightarrow>
                 let status = fold metrics_op ops 200;
                     dur = real_of_int (now s' - start) / 1000000000;
                     routePattern = (if RoutePattern s' = [] then ''(shed)'' else RoutePattern s');
                     dk = (r_Method r, routePattern);
                     ck = (r_Method r, routePattern, status)
                 in ((ops, Returned_ok),
                     (m\<lparr>requestDuration := (requestDuration m)(dk := requestDuration m dk @ [dur]),
                        requestsTotal := (requestsTotal m)(ck := requestsTotal m ck + 1)\<rparr>, s')))"

text \<open>The callback of \<^verbatim>\<open>RegisterUpstreamHealth\<close>: one observation per sample.\<close>

record UpstreamHealthSample =
  us_Service :: string
  us_Upstream :: string
  us_Healthy :: bool

definition upstream_health_observations ::
  "UpstreamHealthSample list \<Rightarrow> (int \<times> string \<times> string) list" where
  "upstream_health_observations samples =
     map (\<lambda>s. (if us_Healthy s then 1 else 0, us_Service s, us_Upstream s)) samples"

definition RegisterUpstreamHealth :: "'e meter \<Rightarrow> 'e option" where
  "RegisterUpstreamHealth mt =
     (case Int64ObservableGauge mt ''gateway.upstream.healthy'' of
        Some err \<Rightarrow> Some err
      | None \<Rightarrow> RegisterCallback mt)"

section \<open>Laws\<close>

text \<open>Status and body of a response do not depend on the header the writer starts with.\<close>

definition same_status_body :: "rwriter \<Rightarrow> rwriter \<Rightarrow> bool" where
  "same_status_body w w' \<longleftrightarrow> rw_status w = rw_status w' \<and> rw_body w = rw_body w'"

lemma same_status_body_op: "same_status_body w w' \<Longrightarrow> same_status_body (rw_op op w) (rw_op op w')"
  by (cases op) (auto simp: same_status_body_def rw_WriteHeader_def rw_Write_def Let_def)

lemma same_status_body_fold:
  "same_status_body w w' \<Longrightarrow> same_status_body (fold rw_op ops w) (fold rw_op ops w')"
  by (induction ops arbitrary: w w') (simp_all add: same_status_body_op)

lemma logger_under: "lw_under (fold logger_op ops lw) = fold rw_op ops (lw_under lw)"
proof (induction ops arbitrary: lw)
  case (Cons op ops)
  then show ?case by (cases op) (simp_all add: Let_def)
qed simp

lemma logger_bytes:
  "lw_bytes (fold logger_op ops lw) - int (length (rw_body (lw_under (fold logger_op ops lw)))) =
   lw_bytes lw - int (length (rw_body (lw_under lw)))"
proof (induction ops arbitrary: lw)
  case (Cons op ops)
  have "lw_bytes (logger_op op lw) - int (length (rw_body (lw_under (logger_op op lw)))) =
      lw_bytes lw - int (length (rw_body (lw_under lw)))"
    by (cases op) (simp_all add: Let_def rw_accepts_def rw_WriteHeader_def)
  with Cons show ?case by simp
qed simp

lemma served_body: "rw_body (served ops) = rw_body (fold rw_op ops new_rwriter)"
  by (simp add: served_def rw_WriteHeader_def Let_def)

lemma logged_bytes:
  "lw_bytes (fold logger_op ops (new_loggerWriter h)) = int (length (rw_body (served ops)))"
proof -
  have "same_status_body (fold rw_op ops (new_rwriter\<lparr>rw_header := h\<rparr>)) (fold rw_op ops new_rwriter)"
    by (rule same_status_body_fold) (simp add: same_status_body_def)
  then show ?thesis
    using logger_bytes [of ops "new_loggerWriter h"]
    by (simp add: logger_under new_loggerWriter_def same_status_body_def served_body)
      (simp add: new_rwriter_def)
qed

lemma one_status_writeJSON [simp]: "200 \<le> st \<Longrightarrow> one_status (writeJSON st body)"
  by (simp add: writeJSON_def)

lemma cl_inv:
  assumes "cl_reachable limit s" and "0 < limit"
  shows "cl_sem s = count_list (cl_phases s) Running \<and> int (cl_sem s) \<le> limit"
  using assms(1)
proof induction
  case (cl_more s s')
  from cl_more(2,1,3) show ?case
  proof cases
    case (enter i)
    with cl_more(3) count_list_update [of i "cl_phases s" Running Running] show ?thesis by simp
  next
    case (shed i)
    with cl_more(3) count_list_update [of i "cl_phases s" Shed Running] show ?thesis by simp
  next
    case (leave i out)
    with cl_more(3) count_list_update [of i "cl_phases s" "Finished out" Running] show ?thesis by simp
  next
    case arrive
    with cl_more(3) show ?thesis by simp
  qed
qed (use assms(2) in simp)

lemma version_nibble: "unat (((b :: 8 word) AND 0x0f) OR 0x40) div 16 = 4"
proof -
  have "drop_bit 4 ((b AND 0x0f) OR 0x40) = 4" by simp
  then have "unat (drop_bit 4 ((b AND 0x0f) OR 0x40)) = 4" by (simp only: unat_numeral) simp
  then show ?thesis by (simp add: drop_bit_eq_div unat_div_distrib)
qed

lemma variant_nibble: "unat (((b :: 8 word) AND 0x3f) OR 0x80) div 16 \<in> {8, 9, 10, 11}"
proof -
  define y where "y = take_bit 2 (drop_bit 4 b)"
  have "drop_bit 4 ((b AND 0x3f) OR 0x80) = y OR 8"
    by (simp add: y_def take_bit_eq_mask mask_eq_exp_minus_1)
  moreover have "unat y < 4"
    using take_bit_nat_less_exp [of 2 "unat (drop_bit 4 b)"] by (simp add: y_def unsigned_take_bit_eq)
  then have "y = 0 \<or> y = 1 \<or> y = 2 \<or> y = 3"
    by (simp add: word_unat_eq_iff) arith
  ultimately have "unat (drop_bit 4 ((b AND 0x3f) OR 0x80)) \<in> {8, 9, 10, 11}" by auto
  then show ?thesis by (simp add: drop_bit_eq_div unat_div_distrib)
qed

definition uuid_wf :: "string \<Rightarrow> bool" where
  "uuid_wf u \<longleftrightarrow> length u = 36 \<and> u ! 8 = CHR ''-'' \<and> u ! 13 = CHR ''-'' \<and> u ! 18 = CHR ''-'' \<and>
     u ! 23 = CHR ''-'' \<and> u ! 14 = CHR ''4'' \<and> u ! 19 \<in> set ''89ab''"

definition uuid_stamp :: "8 word list \<Rightarrow> 8 word list" where
  "uuid_stamp bs = bs[6 := ((bs ! 6) AND 0x0f) OR 0x40, 8 := ((bs ! 8) AND 0x3f) OR 0x80]"

definition uuid_text :: "8 word list \<Rightarrow> string" where
  "uuid_text v = EncodeToString (take 4 v) @ ''-'' @ EncodeToString (take 2 (drop 4 v)) @ ''-'' @
     EncodeToString (take 2 (drop 6 v)) @ ''-'' @ EncodeToString (take 2 (drop 8 v)) @ ''-'' @
     EncodeToString (take 6 (drop 10 v))"

lemma newUUID_text: "newUUID (Inr bs) = Inr (uuid_text (uuid_stamp bs))"
  by (simp add: newUUID_def uuid_text_def uuid_stamp_def Let_def del: take_update_cancel drop_update_cancel)

lemma list16:
  assumes "length bs = 16"
  obtains b0 b1 b2 b3 b4 b5 b6 b7 b8 b9 b10 b11 b12 b13 b14 b15
  where "bs = [b0, b1, b2, b3, b4, b5, b6, b7, b8, b9, b10, b11, b12, b13, b14, b15]"
  using assms by (auto simp: numeral_eq_Suc length_Suc_conv)

lemma newUUID_wf:
  assumes "length bs = 16" and "newUUID (Inr bs) = Inr u"
  shows "uuid_wf u"
proof -
  obtain b0 b1 b2 b3 b4 b5 b6 b7 b8 b9 b10 b11 b12 b13 b14 b15 where bs:
    "bs = [b0, b1, b2, b3, b4, b5, b6, b7, b8, b9, b10, b11, b12, b13, b14, b15]"
    by (rule list16 [OF assms(1)])
  have u: "u = concat (map hex_byte [b0, b1, b2, b3]) @ ''-'' @ concat (map hex_byte [b4, b5]) @ ''-'' @
      concat (map hex_byte [(b6 AND 0x0f) OR 0x40, b7]) @ ''-'' @
      concat (map hex_byte [(b8 AND 0x3f) OR 0x80, b9]) @ ''-'' @
      concat (map hex_byte [b10, b11, b12, b13, b14, b15])"
    using assms(2) by (simp add: newUUID_def bs EncodeToString_def)
  have "hex_digit (unat ((b8 AND 0x3f) OR 0x80) div 16) \<in> set ''89ab''"
    using variant_nibble [of b8] by (auto simp: hex_digit_def)
  moreover have "hex_digit (unat ((b6 AND 0x0f) OR 0x40) div 16) = CHR ''4''"
    by (simp add: version_nibble hex_digit_def)
  ultimately show ?thesis by (simp add: u uuid_wf_def hex_byte_def)
qed

lemma newUUID_inj:
  assumes "length bs = 16" "length bs' = 16"
  shows "newUUID (Inr bs :: 'e + 8 word list) = newUUID (Inr bs') \<longleftrightarrow> uuid_stamp bs = uuid_stamp bs'"
proof
  define v v' where "v = uuid_stamp bs" and "v' = uuid_stamp bs'"
  have len: "length v = 16" "length v' = 16" using assms by (simp_all add: v_def v'_def uuid_stamp_def)
  assume "newUUID (Inr bs :: 'e + 8 word list) = newUUID (Inr bs')"
  then have "uuid_text v = uuid_text v'" by (simp add: newUUID_text v_def v'_def)
  then have "take 4 v = take 4 v'" "take 2 (drop 4 v) = take 2 (drop 4 v')"
    "take 2 (drop 6 v) = take 2 (drop 6 v')" "take 2 (drop 8 v) = take 2 (drop 8 v')"
    "take 6 (drop 10 v) = take 6 (drop 10 v')"
    using len by (simp_all add: uuid_text_def EncodeToString_inj)
  moreover have "w = take 4 w @ take 2 (drop 4 w) @ take 2 (drop 6 w) @ take 2 (drop 8 w) @ take 6 (drop 10 w)"
    if "length w = 16" for w :: "8 word list"
    using that by (rule list16) simp
  ultimately have "v = v'" using len by metis
  then show "uuid_stamp bs = uuid_stamp bs'" by (simp add: v_def v'_def)
next
  show "newUUID (Inr bs :: 'e + 8 word list) = newUUID (Inr bs')" if "uuid_stamp bs = uuid_stamp bs'"
    using that by (simp add: newUUID_text)
qed

section \<open>Properties\<close>

text \<open>
  Request ids. From 16 random bytes \<open>newUUID\<close> makes a well-formed version 4 UUID (36
  characters, dashes in place, version 4, variant 10), and two requests get the same id only
  if the bytes agree outside the six bits that version and variant fix.
\<close>
lemma newUUID_v4_unique:
  assumes "length bs = 16" and "length bs' = 16"
  shows "(\<exists>u. newUUID (Inr bs :: unit + 8 word list) = Inr u \<and> uuid_wf u) \<and>
    (newUUID (Inr bs :: unit + 8 word list) = newUUID (Inr bs') \<longleftrightarrow> uuid_stamp bs = uuid_stamp bs')"
  using newUUID_wf [OF assms(1)] newUUID_inj [OF assms] by (auto simp: newUUID_def Let_def)



text \<open>
  A panic before anything was sent becomes a clean 500: behind \<open>Recoverer\<close> no handler
  panics, and if the panicking handler had not sent a status, the response has status 500.
\<close>
lemma Recoverer_turns_panic_into_500:
  assumes "next h r s = ((ops, Panicked v), s')"
    and "rw_status (fold rw_op ops new_rwriter) = None"
  shows "snd (fst (Recoverer logger next h r s)) = Returned_ok \<and>
    rw_status (served (fst (fst (Recoverer logger next h r s)))) = Some 500 \<and>
    snd (Recoverer logger next h r s) = logger (PanicRecovered v) s'"
  using assms
  by (simp add: Recoverer_def served_def rw_WriteHeader_def rw_Write_def Let_def)

text \<open>
  A panic after the status was sent corrupts the response. When a handler that has sent a
  status and part of a body aborts with \<^verbatim>\<open>http.ErrAbortHandler\<close>, \<open>Recoverer\<close> swallows the
  abort: it returns normally and appends the JSON error to the partial body, under the status
  of success that was sent.
\<close>
lemma Recoverer_appends_to_aborted_response:
  assumes "next h r s = ((ops, Panicked ErrAbortHandler), s')"
    and "rw_status (fold rw_op ops new_rwriter) = Some st" and "body_allowed st"
  shows "snd (fst (Recoverer logger next h r s)) = Returned_ok \<and>
    rw_status (served (fst (fst (Recoverer logger next h r s)))) = Some st \<and>
    rw_body (served (fst (fst (Recoverer logger next h r s)))) =
      rw_body (fold rw_op ops new_rwriter) @ json_object [(''error'', ''internal server error'')]"
  using assms
  by (simp add: Recoverer_def served_def rw_WriteHeader_def rw_Write_def Let_def)

text \<open>
  C25: the concurrency limit under every interleaving: at most \<open>limit\<close> handlers run at a time,
  the semaphore counts exactly the running ones, so no slot leaks on return or panic.
\<close>
theorem ConcurrencyLimit_bound:
  assumes "cl_reachable limit s" and "0 < limit"
  shows "cl_sem s = count_list (cl_phases s) Running \<and>
    int (count_list (cl_phases s) Running) \<le> limit"
  using cl_inv [OF assms] by simp

theorem ConcurrencyLimit_bound_witness:
  "int (count_list (cl_phases \<lparr>cl_sem = 1, cl_phases = [Running, Shed]\<rparr>) Running) \<le> 1"
proof -
  have "cl_step 1 \<lparr>cl_sem = 0, cl_phases = []\<rparr> \<lparr>cl_sem = 0, cl_phases = [Arriving]\<rparr>"
    using cl_step.arrive [of 1 "\<lparr>cl_sem = 0, cl_phases = []\<rparr>"] by simp
  moreover have "cl_step 1 \<lparr>cl_sem = 0, cl_phases = [Arriving]\<rparr> \<lparr>cl_sem = 1, cl_phases = [Running]\<rparr>"
    using cl_step.enter [of 0 "\<lparr>cl_sem = 0, cl_phases = [Arriving]\<rparr>" 1] by simp
  moreover have "cl_step 1 \<lparr>cl_sem = 1, cl_phases = [Running]\<rparr> \<lparr>cl_sem = 1, cl_phases = [Running, Arriving]\<rparr>"
    using cl_step.arrive [of 1 "\<lparr>cl_sem = 1, cl_phases = [Running]\<rparr>"] by simp
  moreover have "cl_step 1 \<lparr>cl_sem = 1, cl_phases = [Running, Arriving]\<rparr>
      \<lparr>cl_sem = 1, cl_phases = [Running, Shed]\<rparr>"
    using cl_step.shed [of 1 "\<lparr>cl_sem = 1, cl_phases = [Running, Arriving]\<rparr>" 1] by simp
  ultimately have "cl_reachable 1 \<lparr>cl_sem = 1, cl_phases = [Running, Shed]\<rparr>"
    by (meson cl_init cl_more)
  from ConcurrencyLimit_bound [OF this] show ?thesis by simp
qed

text \<open>
  The body limit. A body that declares more than \<open>limit\<close> bytes is answered 413 without
  reaching the handler. Otherwise the handler reads the first \<open>limit\<close> bytes of the body and
  no more, and its read ends in an error exactly when there are more.
\<close>
lemma MaxBody_limits_body:
  assumes "0 \<le> limit"
  shows "\<exists>r'. MaxBody limit next h r s =
      (if r_ContentLength r > limit
       then ((writeJSON 413 [(''error'', ''request body too large'')], Returned_ok), s)
       else next h r' s) \<and>
    read_body r' = (take (nat limit) (r_Body r), int (length (r_Body r)) > limit)"
  using assms
  by (intro exI [of _ "r\<lparr>r_bodyLimit := Some limit\<rparr>"]) (auto simp: MaxBody_def read_body_def)

end
