(* ===== verification/Compress.thy ===== *)
theory Compress
  imports Middleware
begin

text \<open>
  \<^verbatim>\<open>internal/middleware/compress.go\<close>. \<^verbatim>\<open>compressWriter\<close> is an interpreter of the calls the
  inner handler makes on it; each call yields the calls on the wrapped writer. \<open>cw_header\<close> is
  the header map of the wrapped writer, which both share. The gzip writer is a parameter: its
  state after \<open>Reset\<close>, what \<open>Write\<close> passes on and what \<open>Close\<close> adds; \<open>gzip_correct\<close> says
  that all of it together decodes to what was written. The content sniffer
  \<^verbatim>\<open>http.DetectContentType\<close> is a parameter as well.
\<close>

section \<open>The writer\<close>

record 'g gzip_writer =
  gz_Reset :: 'g
  gz_Write :: "string \<Rightarrow> 'g \<Rightarrow> string \<times> 'g"
  gz_Close :: "'g \<Rightarrow> string"

record 'g compressWriter =
  cw_header :: header
  cw_gz :: 'g
  cw_minSize :: int
  cw_wroteHead :: bool
  cw_compress :: bool
  cw_buf :: string
  cw_statusCode :: int

definition compressibleContentTypes :: "string list" where
  "compressibleContentTypes =
     [''text/'', ''application/json'', ''application/xml'', ''application/javascript'',
      ''application/x-www-form-urlencoded'']"

definition isCompressibleType :: "(string \<Rightarrow> string) \<Rightarrow> string \<Rightarrow> string \<Rightarrow> bool" where
  "isCompressibleType DetectContentType contentType sniff =
     (let contentType = (if contentType = [] then DetectContentType sniff else contentType);
          (ct, _, _) = Cut (CHR '';'') contentType;
          ct = TrimSpace ct
      in list_ex (\<lambda>p. HasPrefix ct p) compressibleContentTypes)"

definition clientAcceptsGzip :: "string \<Rightarrow> bool" where
  "clientAcceptsGzip header =
     list_ex (\<lambda>part. let token = TrimSpace part; (name, _, _) = Cut (CHR '';'') token
                     in EqualFold (TrimSpace name) ''gzip'')
       (SplitSeq (CHR '','') header)"

text \<open>An empty output of the gzip writer is no call on the wrapped writer.\<close>

definition emit :: "string \<Rightarrow> wop list" where
  "emit out = (if out = [] then [] else [Write out])"

definition decide :: "(string \<Rightarrow> string) \<Rightarrow> 'g compressWriter \<Rightarrow> wop list \<times> 'g compressWriter" where
  "decide DetectContentType cw =
     (let header = cw_header cw;
          compress =
            (if header_Get header ''Content-Encoding'' \<noteq> [] then False
             else if \<not> isCompressibleType DetectContentType (header_Get header ''Content-Type'') (cw_buf cw)
             then False else True);
          cw = cw\<lparr>cw_compress := compress\<rparr>
      in if compress
         then ([HeaderSet ''Content-Encoding'' ''gzip'', HeaderDel ''Content-Length''],
               cw\<lparr>cw_header := header_Del ''Content-Length'' (header_Set ''Content-Encoding'' ''gzip'' header)\<rparr>)
         else ([], cw))"

definition flushBuffered :: "'g gzip_writer \<Rightarrow> 'g compressWriter \<Rightarrow> wop list \<times> 'g compressWriter" where
  "flushBuffered gz cw =
     (let status = (if cw_statusCode cw = 0 then 200 else cw_statusCode cw);
          cw = cw\<lparr>cw_wroteHead := True\<rparr>
      in if cw_compress cw
         then (case gz_Write gz (cw_buf cw) (gz_Reset gz) of
                 (out, g) \<Rightarrow> (WriteHeader status # emit out, cw\<lparr>cw_gz := g, cw_buf := []\<rparr>))
         else ([WriteHeader status, Write (cw_buf cw)], cw\<lparr>cw_buf := []\<rparr>))"

definition cw_Write ::
  "(string \<Rightarrow> string) \<Rightarrow> 'g gzip_writer \<Rightarrow> string \<Rightarrow> 'g compressWriter \<Rightarrow> wop list \<times> 'g compressWriter" where
  "cw_Write DetectContentType gz b cw =
     (if cw_wroteHead cw then
        (if cw_compress cw then
           (case gz_Write gz b (cw_gz cw) of (out, g) \<Rightarrow> (emit out, cw\<lparr>cw_gz := g\<rparr>))
         else ([Write b], cw))
      else
        let cw = cw\<lparr>cw_buf := cw_buf cw @ b\<rparr>
        in if int (length (cw_buf cw)) < cw_minSize cw then ([], cw)
           else (case decide DetectContentType cw of
                   (ops, cw) \<Rightarrow> (case flushBuffered gz cw of (ops', cw) \<Rightarrow> (ops @ ops', cw))))"

fun cw_op ::
  "(string \<Rightarrow> string) \<Rightarrow> 'g gzip_writer \<Rightarrow> wop \<Rightarrow> 'g compressWriter \<Rightarrow> wop list \<times> 'g compressWriter" where
  "cw_op det gz (WriteHeader code) cw = ([], cw\<lparr>cw_statusCode := code\<rparr>)"
| "cw_op det gz (Write b) cw = cw_Write det gz b cw"
| "cw_op det gz op cw = ([op], cw\<lparr>cw_header := header_op op (cw_header cw)\<rparr>)"

fun cw_run ::
  "(string \<Rightarrow> string) \<Rightarrow> 'g gzip_writer \<Rightarrow> wop list \<Rightarrow> 'g compressWriter \<Rightarrow> wop list \<times> 'g compressWriter" where
  "cw_run det gz [] cw = ([], cw)"
| "cw_run det gz (op # ops) cw =
     (case cw_op det gz op cw of
        (out, cw) \<Rightarrow> (case cw_run det gz ops cw of (out', cw) \<Rightarrow> (out @ out', cw)))"

definition finish :: "'g gzip_writer \<Rightarrow> 'g compressWriter \<Rightarrow> wop list" where
  "finish gz cw =
     (let (ops, cw) = (if \<not> cw_wroteHead cw then flushBuffered gz (cw\<lparr>cw_compress := False\<rparr>)
                       else ([], cw))
      in ops @ (if cw_compress cw then emit (gz_Close gz (cw_gz cw)) else []))"

section \<open>The middleware\<close>

definition Compress :: "(string \<Rightarrow> string) \<Rightarrow> 'g gzip_writer \<Rightarrow> int \<Rightarrow> 's middleware" where
  "Compress DetectContentType gz minSize next h r s =
     (let vary = HeaderAdd ''Vary'' ''Accept-Encoding'';
          h = header_op vary h
      in if \<not> clientAcceptsGzip (header_Get (r_Header r) ''Accept-Encoding'') then
           (case next h r s of ((ops, out), s') \<Rightarrow> ((vary # ops, out), s'))
         else
           let cw = \<lparr>cw_header = h, cw_gz = gz_Reset gz, cw_minSize = minSize, cw_wroteHead = False,
                     cw_compress = False, cw_buf = [], cw_statusCode = 0\<rparr>
           in case next h r s of
                ((ops, out), s') \<Rightarrow>
                  (case cw_run DetectContentType gz ops cw of
                     (ops', cw) \<Rightarrow>
                       ((vary # ops' @ (if out = Returned_ok then finish gz cw else []), out), s')))"

section \<open>Laws\<close>

fun gz_run :: "'g gzip_writer \<Rightarrow> string list \<Rightarrow> 'g \<Rightarrow> string \<times> 'g" where
  "gz_run gz [] g = ([], g)"
| "gz_run gz (b # bs) g =
     (case gz_Write gz b g of (out, g) \<Rightarrow> (case gz_run gz bs g of (out', g) \<Rightarrow> (out @ out', g)))"

definition gzip_correct :: "(string \<Rightarrow> string option) \<Rightarrow> 'g gzip_writer \<Rightarrow> bool" where
  "gzip_correct gunzip gz \<longleftrightarrow>
     (\<forall>bs. gunzip (fst (gz_run gz bs (gz_Reset gz)) @ gz_Close gz (snd (gz_run gz bs (gz_Reset gz)))) =
        Some (concat bs))"

text \<open>A reply with the header first, then the status, then the body in chunks.\<close>

fun is_header_op :: "wop \<Rightarrow> bool" where
  "is_header_op (WriteHeader c) = False"
| "is_header_op (Write b) = False"
| "is_header_op op = True"

definition plain_reply :: "wop list \<Rightarrow> int \<Rightarrow> string list \<Rightarrow> wop list" where
  "plain_reply hs st bs = hs @ WriteHeader st # map Write bs"

lemma rw_writes:
  "rw_status w = Some st \<Longrightarrow> body_allowed st \<Longrightarrow>
   fold rw_op (map Write bs) w = w\<lparr>rw_body := rw_body w @ concat bs\<rparr>"
  by (induction bs arbitrary: w) (simp_all add: rw_Write_def Let_def)

lemma rw_header_ops:
  "list_all is_header_op hs \<Longrightarrow>
   fold rw_op hs w = w\<lparr>rw_header := fold header_op hs (rw_header w)\<rparr>"
proof (induction hs arbitrary: w)
  case (Cons op hs)
  then show ?case by (cases op) simp_all
qed simp

text \<open>What the server sends for a plain reply.\<close>

lemma rw_plain_reply:
  assumes "list_all is_header_op hs" "rw_status w = None" "200 \<le> st" "body_allowed st"
  shows "fold rw_op (plain_reply hs st bs) w =
    w\<lparr>rw_header := fold header_op hs (rw_header w), rw_status := Some st,
      rw_sent := fold header_op hs (rw_header w), rw_body := rw_body w @ concat bs\<rparr>"
  using assms
  by (simp add: plain_reply_def rw_header_ops rw_WriteHeader_def rw_writes [where st = st])

lemma cw_run_header:
  "list_all is_header_op hs \<Longrightarrow>
   cw_run det gz (hs @ ops) cw =
     (case cw_run det gz ops (cw\<lparr>cw_header := fold header_op hs (cw_header cw)\<rparr>) of
        (out, cw') \<Rightarrow> (hs @ out, cw'))"
proof (induction hs arbitrary: cw)
  case (Cons op hs)
  then show ?case by (cases op) (simp_all add: case_prod_beta)
qed simp

lemma cw_run_passthrough:
  "cw_wroteHead cw \<Longrightarrow> \<not> cw_compress cw \<Longrightarrow> cw_run det gz (map Write bs) cw = (map Write bs, cw)"
  by (induction bs) (simp_all add: cw_Write_def)

lemma emit_writes: "\<exists>outs. emit out = map Write outs \<and> concat outs = out"
  by (rule exI [of _ "if out = [] then [] else [out]"]) (simp add: emit_def)

lemma cw_run_gzip:
  "cw_wroteHead cw \<Longrightarrow> cw_compress cw \<Longrightarrow>
   \<exists>outs. cw_run det gz (map Write bs) cw =
      (map Write outs, cw\<lparr>cw_gz := snd (gz_run gz bs (cw_gz cw))\<rparr>) \<and>
     concat outs = fst (gz_run gz bs (cw_gz cw))"
proof (induction bs arbitrary: cw)
  case (Cons b bs)
  obtain out g where w: "gz_Write gz b (cw_gz cw) = (out, g)" by fastforce
  obtain o1 where o1: "emit out = map Write o1" "concat o1 = out" using emit_writes by blast
  from Cons.IH [of "cw\<lparr>cw_gz := g\<rparr>"] Cons.prems obtain o2 where o2:
    "cw_run det gz (map Write bs) (cw\<lparr>cw_gz := g\<rparr>) =
       (map Write o2, cw\<lparr>cw_gz := snd (gz_run gz bs g)\<rparr>)" "concat o2 = fst (gz_run gz bs g)"
    by auto
  show ?case
    using Cons.prems w o1 o2 by (intro exI [of _ "o1 @ o2"]) (simp add: cw_Write_def case_prod_beta)
qed (rule exI [of _ "[]"], simp)

text \<open>
  The two ways a buffered response can leave the writer: as it is, or compressed.
\<close>

definition sent_plain :: "int \<Rightarrow> string \<Rightarrow> wop list \<Rightarrow> bool" where
  "sent_plain st body ops \<longleftrightarrow> (\<exists>outs. ops = WriteHeader st # map Write outs \<and> concat outs = body)"

definition sent_gzip ::
  "(string \<Rightarrow> string) \<Rightarrow> 'g gzip_writer \<Rightarrow> int \<Rightarrow> header \<Rightarrow> int \<Rightarrow> string \<Rightarrow> wop list \<Rightarrow> bool" where
  "sent_gzip det gz minSize h st body ops \<longleftrightarrow>
     (\<exists>outs ds. ops = HeaderSet ''Content-Encoding'' ''gzip'' # HeaderDel ''Content-Length'' #
          WriteHeader st # map Write outs \<and>
        concat ds = body \<and>
        concat outs = fst (gz_run gz ds (gz_Reset gz)) @ gz_Close gz (snd (gz_run gz ds (gz_Reset gz)))) \<and>
     minSize \<le> int (length body) \<and> header_Get h ''Content-Encoding'' = [] \<and>
     (\<exists>p. prefix p body \<and> isCompressibleType det (header_Get h ''Content-Type'') p)"

lemma finish_plain:
  assumes "\<not> cw_wroteHead cw" "cw_statusCode cw = st" "st \<noteq> 0"
  shows "sent_plain st (cw_buf cw) (finish gz cw)"
  unfolding sent_plain_def
  by (rule exI [of _ "[cw_buf cw]"]) (use assms in \<open>simp add: finish_def flushBuffered_def\<close>)

lemma decided_plain:
  assumes "cw_statusCode cw = st" "st \<noteq> 0" "\<not> cw_compress cw"
  shows "case flushBuffered gz cw of (ops, cw') \<Rightarrow>
    (case cw_run det gz (map Write bs) cw' of (ops', cw'') \<Rightarrow>
       sent_plain st (cw_buf cw @ concat bs) (ops @ ops' @ finish gz cw''))"
  unfolding sent_plain_def using assms
  by (auto simp: flushBuffered_def cw_run_passthrough finish_def intro!: exI [of _ "cw_buf cw # bs"])

lemma decided_gzip:
  assumes "cw_statusCode cw = st" "st \<noteq> 0" "cw_compress cw"
  shows "case flushBuffered gz cw of (ops, cw') \<Rightarrow>
    (case cw_run det gz (map Write bs) cw' of (ops', cw'') \<Rightarrow>
       \<exists>outs. ops @ ops' @ finish gz cw'' = WriteHeader st # map Write outs \<and>
         concat outs = fst (gz_run gz (cw_buf cw # bs) (gz_Reset gz)) @
           gz_Close gz (snd (gz_run gz (cw_buf cw # bs) (gz_Reset gz))))"
proof -
  obtain out g where w: "gz_Write gz (cw_buf cw) (gz_Reset gz) = (out, g)" by fastforce
  define cw' where "cw' = cw\<lparr>cw_wroteHead := True, cw_gz := g, cw_buf := []\<rparr>"
  obtain o1 where o1: "emit out = map Write o1" "concat o1 = out" using emit_writes by blast
  obtain o2 where o2: "cw_run det gz (map Write bs) cw' =
      (map Write o2, cw'\<lparr>cw_gz := snd (gz_run gz bs g)\<rparr>)" "concat o2 = fst (gz_run gz bs g)"
    using cw_run_gzip [of cw' det gz bs] assms by (auto simp: cw'_def)
  obtain o3 where o3: "emit (gz_Close gz (snd (gz_run gz bs g))) = map Write o3"
    "concat o3 = gz_Close gz (snd (gz_run gz bs g))" using emit_writes by blast
  have flush: "flushBuffered gz cw = (WriteHeader st # map Write o1, cw')"
    using assms w o1 by (simp add: flushBuffered_def cw'_def)
  have fin: "finish gz (cw'\<lparr>cw_gz := snd (gz_run gz bs g)\<rparr>) = map Write o3"
    using assms o3 by (simp add: finish_def cw'_def)
  show ?thesis
    using w o1 o2 o3 by (simp add: flush fin case_prod_beta exI [of _ "o1 @ o2 @ o3"])
qed

lemma decide_gzip:
  assumes "decide det c = (ops, d)" "cw_compress d" "cw_statusCode c \<noteq> 0" "cw_minSize c \<le> int (length (cw_buf c))"
  shows "sent_gzip det gz (cw_minSize c) (cw_header c) (cw_statusCode c) (cw_buf c @ concat bs)
    (ops @ fst (flushBuffered gz d) @ fst (cw_run det gz (map Write bs) (snd (flushBuffered gz d))) @
     finish gz (snd (cw_run det gz (map Write bs) (snd (flushBuffered gz d)))))"
proof -
  have d: "cw_statusCode d = cw_statusCode c" "cw_buf d = cw_buf c"
    and opsd: "ops = [HeaderSet ''Content-Encoding'' ''gzip'', HeaderDel ''Content-Length'']"
    and enc: "header_Get (cw_header c) ''Content-Encoding'' = []"
    and ctyp: "isCompressibleType det (header_Get (cw_header c) ''Content-Type'') (cw_buf c)"
    using assms(1,2) by (auto simp: decide_def Let_def split: if_splits)
  from decided_gzip [OF d(1) assms(3,2), where gz = gz and det = det and bs = bs]
  obtain outs where outs: "fst (flushBuffered gz d) @ fst (cw_run det gz (map Write bs) (snd (flushBuffered gz d))) @
      finish gz (snd (cw_run det gz (map Write bs) (snd (flushBuffered gz d)))) =
      WriteHeader (cw_statusCode c) # map Write outs"
    "concat outs = fst (gz_run gz (cw_buf d # bs) (gz_Reset gz)) @
       gz_Close gz (snd (gz_run gz (cw_buf d # bs) (gz_Reset gz)))"
    by (auto simp: case_prod_beta)
  show ?thesis
    unfolding sent_gzip_def outs(1) opsd
  proof (intro conjI exI)
    show "concat (cw_buf d # bs) = cw_buf c @ concat bs" by (simp add: d)
    show "isCompressibleType det (header_Get (cw_header c) ''Content-Type'') (cw_buf c)" by (rule ctyp)
  qed (use outs enc assms(4) in simp_all)
qed

lemma cw_body:
  assumes "\<not> cw_wroteHead cw" "cw_statusCode cw = st" "st \<noteq> 0"
  shows "case cw_run det gz (map Write bs) cw of (ops, cw') \<Rightarrow>
    sent_plain st (cw_buf cw @ concat bs) (ops @ finish gz cw') \<or>
    sent_gzip det gz (cw_minSize cw) (cw_header cw) st (cw_buf cw @ concat bs) (ops @ finish gz cw')"
  using assms
proof (induction bs arbitrary: cw)
  case Nil
  then show ?case by (simp add: finish_plain)
next
  case (Cons b bs)
  define c where "c = cw\<lparr>cw_buf := cw_buf cw @ b\<rparr>"
  have c: "\<not> cw_wroteHead c" "cw_statusCode c = st" "cw_buf c = cw_buf cw @ b"
    "cw_header c = cw_header cw" "cw_minSize c = cw_minSize cw"
    using Cons.prems by (simp_all add: c_def)
  show ?case
  proof (cases "int (length (cw_buf c)) < cw_minSize c")
    case True
    then have "cw_Write det gz b cw = ([], c)"
      using Cons.prems by (simp add: cw_Write_def c_def)
    with Cons.IH [of c] c Cons.prems(3) show ?thesis by (simp add: case_prod_beta)
  next
    case False
    obtain ops d where d: "decide det c = (ops, d)" by (cases "decide det c")
    then have d': "cw_statusCode d = st" "cw_buf d = cw_buf c"
      using c by (auto simp: decide_def Let_def split: if_splits)
    have wr: "cw_Write det gz b cw = (ops @ fst (flushBuffered gz d), snd (flushBuffered gz d))"
      using Cons.prems False d by (simp add: cw_Write_def c_def case_prod_beta)
    show ?thesis
    proof (cases "cw_compress d")
      case True
      from decide_gzip [OF d True, where gz = gz and bs = bs] c Cons.prems(3) False
      show ?thesis by (simp add: wr case_prod_beta)
    next
      case False
      with d have opsd: "ops = []" by (auto simp: decide_def Let_def split: if_splits)
      from decided_plain [OF d'(1) Cons.prems(3) False, where gz = gz and det = det and bs = bs]
      show ?thesis by (simp add: wr case_prod_beta opsd d' c)
    qed
  qed
qed

lemma rw_after_status:
  assumes "rw_status w = None" "200 \<le> st" "body_allowed st"
  shows "fold rw_op (WriteHeader st # map Write outs) w =
    w\<lparr>rw_status := Some st, rw_sent := rw_header w, rw_body := rw_body w @ concat outs\<rparr>"
  using assms by (simp add: rw_WriteHeader_def rw_writes [where st = st])

lemma sent_plain_rw:
  assumes "sent_plain st body ops" "rw_status v = None" "rw_body v = []" "200 \<le> st" "body_allowed st"
  shows "fold rw_op ops v = v\<lparr>rw_status := Some st, rw_sent := rw_header v, rw_body := body\<rparr>"
  using assms(1) rw_after_status [OF assms(2,4,5)] assms(3) by (auto simp: sent_plain_def)

abbreviation gzip_header :: "header \<Rightarrow> header" where
  "gzip_header h \<equiv> header_Del ''Content-Length'' (header_Set ''Content-Encoding'' ''gzip'' h)"

lemma sent_gzip_rw:
  assumes "gzip_correct gunzip gz" "sent_gzip det gz n h st body ops"
    and "rw_status v = None" "rw_body v = []" "rw_header v = h" "200 \<le> st" "body_allowed st"
  shows "\<exists>out. gunzip out = Some body \<and>
    fold rw_op ops v = v\<lparr>rw_header := gzip_header h, rw_status := Some st, rw_sent := gzip_header h, rw_body := out\<rparr>"
proof -
  from assms(2) obtain outs ds where ops: "ops = HeaderSet ''Content-Encoding'' ''gzip'' #
      HeaderDel ''Content-Length'' # WriteHeader st # map Write outs" and "concat ds = body"
    "concat outs = fst (gz_run gz ds (gz_Reset gz)) @ gz_Close gz (snd (gz_run gz ds (gz_Reset gz)))"
    by (auto simp: sent_gzip_def)
  with assms(1) have "gunzip (concat outs) = Some body" by (auto simp: gzip_correct_def)
  moreover have "fold rw_op ops v = fold rw_op (WriteHeader st # map Write outs) (v\<lparr>rw_header := gzip_header h\<rparr>)"
    by (simp add: ops assms(5))
  ultimately show ?thesis
    using rw_after_status [of "v\<lparr>rw_header := gzip_header h\<rparr>" st outs] assms(3-7) by auto
qed

lemma Compress_reply:
  assumes "next (header_Add ''Vary'' ''Accept-Encoding'' h) r s = ((plain_reply hs st bs, Returned_ok), s')"
    and "list_all is_header_op hs" "st \<noteq> 0"
  shows "\<exists>ops. Compress det gz n next h r s =
      ((HeaderAdd ''Vary'' ''Accept-Encoding'' # hs @ ops, Returned_ok), s') \<and>
    (sent_plain st (concat bs) ops \<or>
     clientAcceptsGzip (header_Get (r_Header r) ''Accept-Encoding'') \<and>
     sent_gzip det gz n (fold header_op hs (header_Add ''Vary'' ''Accept-Encoding'' h)) st (concat bs) ops)"
proof (cases "clientAcceptsGzip (header_Get (r_Header r) ''Accept-Encoding'')")
  case False
  then show ?thesis
    using assms by (auto simp: Compress_def plain_reply_def sent_plain_def)
next
  case True
  define cw where "cw = \<lparr>cw_header = fold header_op hs (header_Add ''Vary'' ''Accept-Encoding'' h),
    cw_gz = gz_Reset gz, cw_minSize = n, cw_wroteHead = False, cw_compress = False, cw_buf = [],
    cw_statusCode = st\<rparr>"
  obtain ops cw' where run: "cw_run det gz (map Write bs) cw = (ops, cw')" by fastforce
  have "Compress det gz n next h r s =
      ((HeaderAdd ''Vary'' ''Accept-Encoding'' # hs @ ops @ finish gz cw', Returned_ok), s')"
    using True assms run
    by (simp add: Compress_def plain_reply_def cw_run_header [OF assms(2)] cw_def Let_def)
  then show ?thesis
    using cw_body [of cw st, where det = det and gz = gz and bs = bs] run True assms(3) by (auto simp: cw_def)
qed

section \<open>Properties\<close>

text \<open>
  C6: compression is transparent. For a reply that sends its header, a status and a body, the
  client gets the same status; and either exactly the header and the body it would get without
  the middleware (with \<^verbatim>\<open>Vary: Accept-Encoding\<close>), or a body that decompresses to that body,
  with \<^verbatim>\<open>Content-Encoding: gzip\<close> and no \<^verbatim>\<open>Content-Length\<close>. The latter only for a client that
  accepts gzip, a body of at least the minimal size, a compressible type and no encoding of
  the upstream's own.
\<close>
theorem Compress_transparent:
  assumes gz: "gzip_correct gunzip gz"
    and inner: "next (header_Add ''Vary'' ''Accept-Encoding'' h) r s =
      ((plain_reply hs st bs, Returned_ok), s')"
    and hs: "list_all is_header_op hs" "200 \<le> st" "body_allowed st"
  shows "\<exists>ops. Compress det gz n next h r s = ((ops, Returned_ok), s') \<and>
    (let w = fold rw_op ops (new_rwriter\<lparr>rw_header := h\<rparr>);
         p = fold rw_op (HeaderAdd ''Vary'' ''Accept-Encoding'' # plain_reply hs st bs)
               (new_rwriter\<lparr>rw_header := h\<rparr>)
     in rw_status w = rw_status p \<and>
        (rw_sent w = rw_sent p \<and> rw_body w = rw_body p \<or>
         rw_sent w = header_Del ''Content-Length'' (header_Set ''Content-Encoding'' ''gzip'' (rw_sent p)) \<and>
         gunzip (rw_body w) = Some (rw_body p) \<and>
         clientAcceptsGzip (header_Get (r_Header r) ''Accept-Encoding'') \<and>
         n \<le> int (length (rw_body p)) \<and> header_Get (rw_sent p) ''Content-Encoding'' = [] \<and>
         (\<exists>b. prefix b (rw_body p) \<and>
            isCompressibleType det (header_Get (rw_sent p) ''Content-Type'') b)))"
proof -
  define H where "H = fold header_op hs (header_Add ''Vary'' ''Accept-Encoding'' h)"
  define v where "v = new_rwriter\<lparr>rw_header := H\<rparr>"
  have v: "rw_status v = None" "rw_header v = H" "rw_body v = []" by (simp_all add: v_def new_rwriter_def)
  have p: "fold rw_op (HeaderAdd ''Vary'' ''Accept-Encoding'' # plain_reply hs st bs)
      (new_rwriter\<lparr>rw_header := h\<rparr>) = v\<lparr>rw_status := Some st, rw_sent := H, rw_body := concat bs\<rparr>"
    using hs by (simp add: rw_plain_reply H_def v_def new_rwriter_def)
  have w: "fold rw_op (HeaderAdd ''Vary'' ''Accept-Encoding'' # hs @ ops) (new_rwriter\<lparr>rw_header := h\<rparr>) =
      fold rw_op ops v" for ops
    by (simp add: rw_header_ops [OF hs(1)] H_def v_def)
  from hs(2) have "st \<noteq> 0" by simp
  from Compress_reply [of "next" h r s hs st bs s' det gz n, OF inner hs(1) this]
  obtain ops where run:
    "Compress det gz n next h r s = ((HeaderAdd ''Vary'' ''Accept-Encoding'' # hs @ ops, Returned_ok), s')"
    and "sent_plain st (concat bs) ops \<or>
      clientAcceptsGzip (header_Get (r_Header r) ''Accept-Encoding'') \<and>
      sent_gzip det gz n H st (concat bs) ops"
    unfolding H_def by blast
  then show ?thesis
  proof (elim disjE conjE)
    assume "sent_plain st (concat bs) ops"
    from sent_plain_rw [OF this v(1,3) hs(2,3)] show ?thesis
      unfolding run p
      by (intro exI [of _ "HeaderAdd ''Vary'' ''Accept-Encoding'' # hs @ ops"]) (simp only: w Let_def, simp add: v)
  next
    assume accepts: "clientAcceptsGzip (header_Get (r_Header r) ''Accept-Encoding'')"
      and sent: "sent_gzip det gz n H st (concat bs) ops"
    from sent_gzip_rw [OF gz sent v(1,3,2) hs(2,3)] obtain out where "gunzip out = Some (concat bs)"
      "fold rw_op ops v = v\<lparr>rw_header := gzip_header H, rw_status := Some st, rw_sent := gzip_header H, rw_body := out\<rparr>"
      by blast
    with accepts sent show ?thesis
      unfolding run p
      by (intro exI [of _ "HeaderAdd ''Vary'' ''Accept-Encoding'' # hs @ ops"])
        (simp only: w Let_def, simp add: sent_gzip_def)
  qed
qed

definition identity_codec :: "unit gzip_writer" where
  "identity_codec = \<lparr>gz_Reset = (), gz_Write = (\<lambda>b g. (b, g)), gz_Close = (\<lambda>_. [])\<rparr>"

lemma identity_codec_correct: "gzip_correct Some identity_codec"
proof -
  have "fst (gz_run identity_codec bs g) = concat bs" for bs g
    by (induction bs arbitrary: g) (simp_all add: identity_codec_def case_prod_beta)
  then show ?thesis by (simp add: gzip_correct_def identity_codec_def)
qed

theorem Compress_transparent_witness:
  "\<exists>ops. Compress (\<lambda>_. ''text/plain'') identity_codec 4
     (\<lambda>h r s. ((plain_reply [HeaderSet ''Content-Type'' ''text/plain''] 200 [''abc'', ''def''], Returned_ok), s))
     empty_header
     ((simple_request ''GET'' ''/'' [])\<lparr>r_Header := header_Set ''Accept-Encoding'' ''gzip'' empty_header\<rparr>) ()
     = ((ops, Returned_ok), ()) \<and>
   rw_status (fold rw_op ops (new_rwriter\<lparr>rw_header := empty_header\<rparr>)) = Some 200 \<and>
   rw_body (fold rw_op ops (new_rwriter\<lparr>rw_header := empty_header\<rparr>)) = ''abcdef''"
proof -
  let ?hs = "[HeaderSet ''Content-Type'' ''text/plain'']"
  have p: "rw_status (fold rw_op (HeaderAdd ''Vary'' ''Accept-Encoding'' # plain_reply ?hs 200 [''abc'', ''def''])
      (new_rwriter\<lparr>rw_header := empty_header\<rparr>)) = Some 200"
    "rw_body (fold rw_op (HeaderAdd ''Vary'' ''Accept-Encoding'' # plain_reply ?hs 200 [''abc'', ''def''])
      (new_rwriter\<lparr>rw_header := empty_header\<rparr>)) = ''abcdef''"
    by (simp_all add: rw_plain_reply new_rwriter_def body_allowed_def)
  show ?thesis
    using Compress_transparent [OF identity_codec_correct, of
        "\<lambda>h r s. ((plain_reply ?hs 200 [''abc'', ''def''], Returned_ok), s)" empty_header
        "(simple_request ''GET'' ''/'' [])\<lparr>r_Header := header_Set ''Accept-Encoding'' ''gzip'' empty_header\<rparr>"
        "()" ?hs 200 "[''abc'', ''def'']" "()" "\<lambda>_. ''text/plain''" 4]
    unfolding Let_def p by (auto simp: body_allowed_def)
qed

text \<open>
  A client that refuses gzip is served gzip: \<open>clientAcceptsGzip\<close> drops the quality value,
  so \<^verbatim>\<open>gzip;q=0\<close>, with which a client says that it does not accept the encoding, counts as
  accepting it.
\<close>
lemma clientAcceptsGzip_ignores_q0: "clientAcceptsGzip ''gzip;q=0, identity''"
  by code_simp

end
