(* ===== verification/Cache_Middleware.thy ===== *)
theory Cache_Middleware
  imports LRU_Cache Go_Url Compress
begin

text \<open>
  \<^verbatim>\<open>internal/middleware/cache.go\<close>, over the LRU cache of \<^verbatim>\<open>internal/cache\<close>. The state of the
  middleware is the LRU and the map of \<^verbatim>\<open>varyState\<close>. SHA-256 is a parameter.
  \<^verbatim>\<open>singleflight\<close> is a parameter too: \<open>flight key\<close> is the outcome of the call in flight for
  the key that this request joins as a follower, \<open>None\<close> when it leads; a panic of the leader
  is raised again in everyone, wrapped. The clock is read from the state of the inner handler.
\<close>

section \<open>Header values\<close>

fun parse_vary_parts :: "string list \<Rightarrow> string list \<Rightarrow> string list \<times> bool" where
  "parse_vary_parts [] out = (out, False)"
| "parse_vary_parts (part # parts) out =
     (let p = TrimSpace part
      in if p = [] then parse_vary_parts parts out
         else if p = ''*'' then ([], True)
         else parse_vary_parts parts (out @ [p]))"

definition parseVary :: "string \<Rightarrow> string list \<times> bool" where
  "parseVary vary = (if vary = [] then ([], False) else parse_vary_parts (SplitSeq (CHR '','') vary) [])"

definition cc_part :: "string \<Rightarrow> (string \<rightharpoonup> string) \<Rightarrow> (string \<rightharpoonup> string)" where
  "cc_part part out =
     (let token = TrimSpace part
      in if token = [] then out
         else let (name, val, _) = Cut (CHR ''='') token
              in out(ToLower (TrimSpace name) \<mapsto> TrimSpace val))"

definition parseCacheControl :: "string \<Rightarrow> (string \<rightharpoonup> string)" where
  "parseCacheControl value =
     (if value = [] then Map.empty else fold cc_part (SplitSeq (CHR '','') value) Map.empty)"

definition etagMatches :: "string \<Rightarrow> string \<Rightarrow> bool" where
  "etagMatches ifNoneMatch etag =
     (if etag = [] then False
      else
        let stored = TrimPrefix etag ''W/''
        in list_ex (\<lambda>part. let token = TrimPrefix (TrimSpace part) ''W/''
                           in token = ''*'' \<or> token = stored)
             (SplitSeq (CHR '','') ifNoneMatch))"

definition computeETag :: "(string \<Rightarrow> 8 word list) \<Rightarrow> string \<Rightarrow> string" where
  "computeETag sha256 body = CHR 0x22 # EncodeToString (take 16 (sha256 body)) @ [CHR 0x22]"

definition cloneHeader :: "header \<Rightarrow> header" where
  "cloneHeader h = (\<lambda>k. map (\<lambda>v. v) (h k))"

section \<open>Keys\<close>

definition buildKey :: "request \<Rightarrow> string list \<Rightarrow> string" where
  "buildKey r varyHeaders =
     (let q = ParseQuery (r_RawQuery r)
      in r_Method r @ '' '' @ r_Path r @ ''?'' @
         concat (map (\<lambda>k. concat (map (\<lambda>v. k @ ''='' @ v @ ''&'') (sort (values_of q k)))) (values_keys q)) @
         concat (map (\<lambda>h. ''|'' @ ToLower h @ ''='' @ header_Get (r_Header r) h) varyHeaders))"

type_synonym varyState = "string \<rightharpoonup> string list"

definition newVaryState :: varyState where
  "newVaryState = Map.empty"

definition headersFor :: "varyState \<Rightarrow> string \<Rightarrow> string \<Rightarrow> string list" where
  "headersFor v method path = (case v (method @ '' '' @ path) of None \<Rightarrow> [] | Some hs \<Rightarrow> hs)"

definition vary_record :: "string \<Rightarrow> string \<Rightarrow> string list \<Rightarrow> varyState \<Rightarrow> varyState" where
  "vary_record method path headers v = v(method @ '' '' @ path \<mapsto> headers)"

section \<open>Capturing and replaying\<close>

record captureWriter =
  cap_status :: int
  cap_header :: header
  cap_body :: string

definition new_captureWriter :: captureWriter where
  "new_captureWriter = \<lparr>cap_status = 0, cap_header = empty_header, cap_body = []\<rparr>"

fun capture_op :: "wop \<Rightarrow> captureWriter \<Rightarrow> captureWriter" where
  "capture_op (WriteHeader code) cw = cw\<lparr>cap_status := code\<rparr>"
| "capture_op (Write b) cw =
     (let cw = (if cap_status cw = 0 then cw\<lparr>cap_status := 200\<rparr> else cw)
      in cw\<lparr>cap_body := cap_body cw @ b\<rparr>)"
| "capture_op op cw = cw\<lparr>cap_header := header_op op (cap_header cw)\<rparr>"

definition writeRaw :: "int \<Rightarrow> header \<Rightarrow> string \<Rightarrow> wop list" where
  "writeRaw status header body =
     [HeaderAddAll header, WriteHeader (if status = 0 then 200 else status), Write body]"

definition serveFromCache :: "request \<Rightarrow> entry \<Rightarrow> wop list" where
  "serveFromCache r entry =
     (let matched = header_Get (r_Header r) ''If-None-Match''
      in if matched \<noteq> [] \<and> etagMatches matched (e_ETag entry) then
           [HeaderAddAll (\<lambda>k. if k = ''Content-Length'' \<or> k = ''Content-Type'' then [] else e_Header entry k),
            HeaderSet ''ETag'' (e_ETag entry), WriteHeader 304]
         else writeRaw (e_Status entry) (e_Header entry) (e_Body entry))"

definition cacheableResponse :: "int \<Rightarrow> (string \<rightharpoonup> string) \<Rightarrow> bool \<Rightarrow> request \<Rightarrow> bool" where
  "cacheableResponse status cc varyAny r =
     (if status \<noteq> 200 then False
      else if cc ''no-store'' \<noteq> None then False
      else if cc ''private'' \<noteq> None then False
      else if varyAny then False
      else if header_Get (r_Header r) ''Authorization'' \<noteq> [] \<and> cc ''public'' = None then False
      else True)"

section \<open>The middleware\<close>

record cache_state =
  c_lru :: lru
  c_vary :: varyState

datatype sfResult = SfEntry entry | SfRaw int header string

definition cache_ttl :: "duration \<Rightarrow> (string \<rightharpoonup> string) \<Rightarrow> duration" where
  "cache_ttl ttl respCC =
     (case respCC ''max-age'' of
        None \<Rightarrow> ttl
      | Some maxAge \<Rightarrow>
          (case Atoi maxAge of
             Some secs \<Rightarrow> if secs > 0 then i64 (secs * Second) else ttl
           | None \<Rightarrow> ttl))"

definition fillCache ::
  "(string \<Rightarrow> 8 word list) \<Rightarrow> ('s \<Rightarrow> time) \<Rightarrow> 's handler \<Rightarrow> duration \<Rightarrow> request \<Rightarrow> cache_state \<times> 's \<Rightarrow>
   (panic + sfResult) \<times> cache_state \<times> 's" where
  "fillCache sha256 now next ttl r cs =
     (case cs of
        (c, s) \<Rightarrow>
          (case next empty_header r s of
             ((ops, Panicked v), s') \<Rightarrow> (Inl v, c, s')
           | ((ops, Returned_ok), s') \<Rightarrow>
               let cw = fold capture_op ops new_captureWriter;
                   bodyCopy = cap_body cw;
                   respCC = parseCacheControl (header_Get (cap_header cw) ''Cache-Control'');
                   (varyHeaders, varyAny) = parseVary (header_Get (cap_header cw) ''Vary'')
               in if \<not> cacheableResponse (cap_status cw) respCC varyAny r then
                    (Inr (SfRaw (cap_status cw) (cap_header cw) bodyCopy), c, s')
                  else
                    let ttl = cache_ttl ttl respCC;
                        vary = vary_record (r_Method r) (r_Path r) varyHeaders (c_vary c);
                        finalKey = buildKey r varyHeaders;
                        etag = header_Get (cap_header cw) ''ETag'';
                        (etag, hdr) =
                          (if etag = [] then
                             let etag = computeETag sha256 bodyCopy
                             in (etag, header_Set ''ETag'' etag (cap_header cw))
                           else (etag, cap_header cw));
                        entry = \<lparr>e_Status = cap_status cw, e_Header = cloneHeader hdr, e_Body = bodyCopy,
                                 e_ETag = etag, e_ExpiresAt = now s' + ttl\<rparr>
                    in (Inr (SfEntry entry),
                        \<lparr>c_lru = lru_Set finalKey entry (c_lru c), c_vary = vary\<rparr>, s')))"

definition deliver :: "request \<Rightarrow> sfResult \<Rightarrow> wop list" where
  "deliver r res =
     (case res of
        SfEntry entry \<Rightarrow> serveFromCache r entry
      | SfRaw status header body \<Rightarrow> writeRaw status header body)"

definition Cache ::
  "(string \<Rightarrow> 8 word list) \<Rightarrow> ('s \<Rightarrow> time) \<Rightarrow> duration \<Rightarrow> (string \<Rightarrow> (panic + sfResult) option) \<Rightarrow>
   's handler \<Rightarrow> (cache_state \<times> 's) handler" where
  "Cache sha256 now ttl flight next h r cs =
     (case cs of
        (c, s) \<Rightarrow>
          if r_Method r \<noteq> ''GET'' \<and> r_Method r \<noteq> ''HEAD'' then
            (case next h r s of (reply, s') \<Rightarrow> (reply, (c, s')))
          else
            let reqCC = parseCacheControl (header_Get (r_Header r) ''Cache-Control'')
            in if reqCC ''no-store'' \<noteq> None then
                 (case next h r s of (reply, s') \<Rightarrow> (reply, (c, s')))
               else
                 let key = buildKey r (headersFor (c_vary c) (r_Method r) (r_Path r));
                     bypassLookup = (reqCC ''no-cache'' \<noteq> None);
                     (hit, lru) = (if bypassLookup then (None, c_lru c) else lru_Get (now s) key (c_lru c));
                     c = c\<lparr>c_lru := lru\<rparr>
                 in case hit of
                      Some entry \<Rightarrow> ((serveFromCache r entry, Returned_ok), (c, s))
                    | None \<Rightarrow>
                        (case flight key of
                           Some (Inl v) \<Rightarrow> (([], Panicked (PanicError v)), (c, s))
                         | Some (Inr res) \<Rightarrow> ((deliver r res, Returned_ok), (c, s))
                         | None \<Rightarrow>
                             (case fillCache sha256 now next ttl r (c, s) of
                                (Inl v, c', s') \<Rightarrow> (([], Panicked (PanicError v)), (c', s'))
                              | (Inr res, c', s') \<Rightarrow> ((deliver r res, Returned_ok), (c', s')))))"

section \<open>Laws\<close>

lemma canonical_keys:
  "canonical_key ''ETag'' = ''Etag''" "canonical_key ''Cache-Control'' = ''Cache-Control''"
  "canonical_key ''Vary'' = ''Vary''" "canonical_key ''Authorization'' = ''Authorization''"
  "canonical_key ''If-None-Match'' = ''If-None-Match''"
  "canonical_key ''Content-Type'' = ''Content-Type''" "canonical_key ''Content-Length'' = ''Content-Length''"
  by code_simp+

text \<open>What the cache promises of every entry it holds.\<close>

definition entry_cacheable :: "entry \<Rightarrow> bool" where
  "entry_cacheable e \<longleftrightarrow>
     e_Status e = 200 \<and>
     parseCacheControl (header_Get (e_Header e) ''Cache-Control'') ''no-store'' = None \<and>
     parseCacheControl (header_Get (e_Header e) ''Cache-Control'') ''private'' = None \<and>
     \<not> snd (parseVary (header_Get (e_Header e) ''Vary'')) \<and>
     e_ETag e \<noteq> [] \<and> header_Get (e_Header e) ''ETag'' = e_ETag e"

lemma cloneHeader_id [simp]: "cloneHeader h = h"
  by (simp add: cloneHeader_def)

lemma computeETag_nonempty [simp]: "computeETag sha256 body \<noteq> []"
  by (simp add: computeETag_def)

text \<open>Everything \<open>fillCache\<close> can do, for a handler that returns.\<close>

definition stored_entry ::
  "(string \<Rightarrow> 8 word list) \<Rightarrow> duration \<Rightarrow> time \<Rightarrow> captureWriter \<Rightarrow> entry" where
  "stored_entry sha256 ttl t cw =
     (let etag = (if header_Get (cap_header cw) ''ETag'' = [] then computeETag sha256 (cap_body cw)
                  else header_Get (cap_header cw) ''ETag'')
      in \<lparr>e_Status = cap_status cw,
          e_Header = (if header_Get (cap_header cw) ''ETag'' = []
                      then header_Set ''ETag'' etag (cap_header cw) else cap_header cw),
          e_Body = cap_body cw, e_ETag = etag,
          e_ExpiresAt = t + cache_ttl ttl (parseCacheControl (header_Get (cap_header cw) ''Cache-Control''))\<rparr>)"

definition captured_cacheable :: "captureWriter \<Rightarrow> request \<Rightarrow> bool" where
  "captured_cacheable cw r =
     cacheableResponse (cap_status cw) (parseCacheControl (header_Get (cap_header cw) ''Cache-Control''))
       (snd (parseVary (header_Get (cap_header cw) ''Vary''))) r"

lemma fillCache_returned:
  assumes "next empty_header r s = ((ops, Returned_ok), s')"
  defines "cw \<equiv> fold capture_op ops new_captureWriter"
  defines "vh \<equiv> fst (parseVary (header_Get (cap_header cw) ''Vary''))"
  shows "fillCache sha256 now next ttl r (c, s) =
    (if captured_cacheable cw r
     then (Inr (SfEntry (stored_entry sha256 ttl (now s') cw)),
           \<lparr>c_lru = lru_Set (buildKey r vh) (stored_entry sha256 ttl (now s') cw) (c_lru c),
            c_vary = vary_record (r_Method r) (r_Path r) vh (c_vary c)\<rparr>, s')
     else (Inr (SfRaw (cap_status cw) (cap_header cw) (cap_body cw)), c, s'))"
  by (simp add: fillCache_def assms(1) captured_cacheable_def stored_entry_def vh_def
      cw_def [symmetric] Let_def case_prod_beta)

lemma fillCache_panicked:
  "next empty_header r s = ((ops, Panicked v), s') \<Longrightarrow>
   fillCache sha256 now next ttl r (c, s) = (Inl v, c, s')"
  by (simp add: fillCache_def)

lemma stored_entry_cacheable:
  assumes "captured_cacheable cw r"
  shows "entry_cacheable (stored_entry sha256 ttl t cw)"
  using assms
  by (auto simp: entry_cacheable_def stored_entry_def captured_cacheable_def cacheableResponse_def
      header_Get_Set canonical_keys Let_def split: if_splits)

text \<open>The requests the cache looks at, and the shape of what it then does.\<close>

definition bypasses :: "request \<Rightarrow> bool" where
  "bypasses r \<longleftrightarrow> r_Method r \<noteq> ''GET'' \<and> r_Method r \<noteq> ''HEAD'' \<or>
     parseCacheControl (header_Get (r_Header r) ''Cache-Control'') ''no-store'' \<noteq> None"

definition lookup_key :: "cache_state \<Rightarrow> request \<Rightarrow> string" where
  "lookup_key c r = buildKey r (headersFor (c_vary c) (r_Method r) (r_Path r))"

definition cache_lookup :: "time \<Rightarrow> cache_state \<Rightarrow> request \<Rightarrow> entry option \<times> lru" where
  "cache_lookup t c r =
     (if parseCacheControl (header_Get (r_Header r) ''Cache-Control'') ''no-cache'' \<noteq> None
      then (None, c_lru c) else lru_Get t (lookup_key c r) (c_lru c))"

definition led_reply :: "request \<Rightarrow> panic + sfResult \<Rightarrow> reply" where
  "led_reply r res =
     (case res of Inl v \<Rightarrow> ([], Panicked (PanicError v)) | Inr res \<Rightarrow> (deliver r res, Returned_ok))"

lemma Cache_bypass:
  "bypasses r \<Longrightarrow> Cache sha256 now ttl flight next h r (c, s) =
     (fst (next h r s), (c, snd (next h r s)))"
  by (auto simp: Cache_def bypasses_def Let_def case_prod_beta)

lemma Cache_hit:
  "\<not> bypasses r \<Longrightarrow> cache_lookup (now s) c r = (Some e, l) \<Longrightarrow>
   Cache sha256 now ttl flight next h r (c, s) =
     ((serveFromCache r e, Returned_ok), (c\<lparr>c_lru := l\<rparr>, s))"
  by (auto simp: Cache_def bypasses_def cache_lookup_def lookup_key_def split: if_splits)

lemma Cache_follow:
  "\<not> bypasses r \<Longrightarrow> cache_lookup (now s) c r = (None, l) \<Longrightarrow> flight (lookup_key c r) = Some res \<Longrightarrow>
   Cache sha256 now ttl flight next h r (c, s) = (led_reply r res, (c\<lparr>c_lru := l\<rparr>, s))"
  by (cases res)
    (auto simp: Cache_def bypasses_def cache_lookup_def lookup_key_def led_reply_def split: if_splits)

lemma Cache_lead:
  assumes "\<not> bypasses r" "cache_lookup (now s) c r = (None, l)" "flight (lookup_key c r) = None"
    and "fillCache sha256 now next ttl r (c\<lparr>c_lru := l\<rparr>, s) = (res, c', s')"
  shows "Cache sha256 now ttl flight next h r (c, s) = (led_reply r res, (c', s'))"
  using assms
  by (cases res)
    (auto simp: Cache_def bypasses_def cache_lookup_def lookup_key_def led_reply_def split: if_splits)

text \<open>One request changes the LRU by a lookup and by at most one store of a cacheable entry.\<close>

lemma fillCache_lru_change:
  assumes "fillCache sha256 now next ttl r (c, s) = (res, c', s')"
  shows "c_lru c' = c_lru c \<or> (\<exists>k e. entry_cacheable e \<and> c_lru c' = lru_Set k e (c_lru c))"
proof -
  obtain ops out s1 where n: "next empty_header r s = ((ops, out), s1)" by (metis prod.exhaust)
  show ?thesis
  proof (cases out)
    case Returned_ok
    with n assms show ?thesis
      by (auto simp: fillCache_returned split: if_splits) (blast intro: stored_entry_cacheable)
  next
    case (Panicked v)
    with n assms show ?thesis by (auto simp: fillCache_panicked)
  qed
qed

lemma Cache_lru_change:
  assumes "Cache sha256 now ttl flight next h r (c, s) = (reply, (c', s'))"
  shows "\<exists>l. (l = c_lru c \<or> (\<exists>t k. l = snd (lru_Get t k (c_lru c)))) \<and>
    (c_lru c' = l \<or> (\<exists>k e. entry_cacheable e \<and> c_lru c' = lru_Set k e l))"
proof (cases "bypasses r")
  case True
  with assms show ?thesis by (auto simp: Cache_bypass)
next
  case False
  obtain hit l where look: "cache_lookup (now s) c r = (hit, l)" by fastforce
  then have l: "l = c_lru c \<or> (\<exists>t k. l = snd (lru_Get t k (c_lru c)))"
    by (auto simp: cache_lookup_def split: if_splits) (metis snd_conv)
  have "c_lru c' = l \<or> (\<exists>k e. entry_cacheable e \<and> c_lru c' = lru_Set k e l)"
  proof (cases hit)
    case (Some e)
    with False look assms show ?thesis by (auto simp: Cache_hit)
  next
    case None
    show ?thesis
    proof (cases "flight (lookup_key c r)")
      case flown: None
      obtain res c1 s1 where fill: "fillCache sha256 now next ttl r (c\<lparr>c_lru := l\<rparr>, s) = (res, c1, s1)"
        by (metis prod.exhaust)
      with False look None flown assms have "c' = c1" by (auto simp: Cache_lead)
      with fillCache_lru_change [OF fill] show ?thesis by simp
    next
      case (Some res)
      with False look None assms show ?thesis by (auto simp: Cache_follow)
    qed
  qed
  with l show ?thesis by blast
qed

inductive cache_reachable ::
  "(string \<Rightarrow> 8 word list) \<Rightarrow> duration \<Rightarrow> int \<Rightarrow> int \<Rightarrow> cache_state \<times> 's \<Rightarrow> bool"
  for sha256 ttl me mb where
  cache_init: "cache_reachable sha256 ttl me mb (\<lparr>c_lru = NewLRU me mb, c_vary = newVaryState\<rparr>, s)"
| cache_serve: "cache_reachable sha256 ttl me mb cs \<Longrightarrow>
    Cache sha256 now ttl flight next h r cs = (reply, cs') \<Longrightarrow> cache_reachable sha256 ttl me mb cs'"
| cache_world: "cache_reachable sha256 ttl me mb (c, s) \<Longrightarrow> cache_reachable sha256 ttl me mb (c, s')"

lemma cache_reachable_entries:
  "cache_reachable sha256 ttl me mb cs \<Longrightarrow> lru.all_entries (\<lambda>_. entry_cacheable) (c_lru (fst cs))"
proof (induction rule: cache_reachable.induct)
  case (cache_init s)
  show ?case unfolding lru.all_entries_def using lru_inv_New [of me mb] by (simp add: NewLRU_def contents_def)
next
  case (cache_serve cs now flight "next" h r reply cs')
  obtain c s c' s' where cs: "cs = (c, s)" "cs' = (c', s')" by (metis prod.exhaust)
  with cache_serve(2) have step: "Cache sha256 now ttl flight next h r (c, s) = (reply, (c', s'))" by simp
  from Cache_lru_change [OF step] cache_serve(3) cs show ?case
    by (auto intro!: lru.all_entries_get lru.all_entries_set)
qed simp

lemma capture_plain_reply:
  assumes "list_all is_header_op hs" "st \<noteq> 0"
  shows "fold capture_op (plain_reply hs st bs) new_captureWriter =
    \<lparr>cap_status = st, cap_header = fold header_op hs empty_header, cap_body = concat bs\<rparr>"
proof -
  have "fold capture_op hs w = w\<lparr>cap_header := fold header_op hs (cap_header w)\<rparr>"
    if "list_all is_header_op hs" for w
    using that
  proof (induction hs arbitrary: w)
    case (Cons op hs)
    then show ?case by (cases op) simp_all
  qed simp
  moreover have "fold capture_op (map Write bs) w = w\<lparr>cap_body := cap_body w @ concat bs\<rparr>"
    if "cap_status w \<noteq> 0" for w
    using that by (induction bs arbitrary: w) simp_all
  ultimately show ?thesis
    using assms by (simp add: plain_reply_def new_captureWriter_def)
qed

lemma served_writeRaw:
  assumes "rw_status w = None" "200 \<le> st" "body_allowed st"
  shows "fold rw_op (writeRaw st g b) w =
    w\<lparr>rw_header := header_AddAll g (rw_header w), rw_status := Some st,
      rw_sent := header_AddAll g (rw_header w), rw_body := rw_body w @ b\<rparr>"
  using assms by (simp add: writeRaw_def rw_WriteHeader_def rw_Write_def Let_def)

text \<open>
  A miss that is led and stored, and a later request with the same method, path and key: the
  second is answered from the stored entry and does not reach the inner handler.
\<close>

definition looks_up :: "request \<Rightarrow> bool" where
  "looks_up r \<longleftrightarrow> \<not> bypasses r \<and>
     parseCacheControl (header_Get (r_Header r) ''Cache-Control'') ''no-cache'' = None"

definition vary_of :: "captureWriter \<Rightarrow> string list" where
  "vary_of cw = fst (parseVary (header_Get (cap_header cw) ''Vary''))"

definition after_store ::
  "(string \<Rightarrow> 8 word list) \<Rightarrow> duration \<Rightarrow> time \<Rightarrow> captureWriter \<Rightarrow> request \<Rightarrow> cache_state \<Rightarrow> cache_state" where
  "after_store sha256 ttl t cw r c =
     \<lparr>c_lru = lru_Set (buildKey r (vary_of cw)) (stored_entry sha256 ttl t cw) (c_lru c),
      c_vary = vary_record (r_Method r) (r_Path r) (vary_of cw) (c_vary c)\<rparr>"

lemma Cache_stores:
  assumes "looks_up r" "cache_lookup (now s) c r = (None, l)" "flight (lookup_key c r) = None"
    and "next empty_header r s = ((ops, Returned_ok), s')"
    and "captured_cacheable (fold capture_op ops new_captureWriter) r"
  shows "Cache sha256 now ttl flight next h r (c, s) =
    ((serveFromCache r (stored_entry sha256 ttl (now s') (fold capture_op ops new_captureWriter)), Returned_ok),
     (after_store sha256 ttl (now s') (fold capture_op ops new_captureWriter) r (c\<lparr>c_lru := l\<rparr>), s'))"
proof -
  define cw where "cw = fold capture_op ops new_captureWriter"
  have bp: "\<not> bypasses r" using assms(1) by (simp add: looks_up_def)
  have "fillCache sha256 now next ttl r (c\<lparr>c_lru := l\<rparr>, s) =
      (Inr (SfEntry (stored_entry sha256 ttl (now s') cw)),
       after_store sha256 ttl (now s') cw r (c\<lparr>c_lru := l\<rparr>), s')"
    using fillCache_returned [of "next" r s ops s' sha256 now ttl "c\<lparr>c_lru := l\<rparr>", OF assms(4)] assms(5)
    by (simp add: after_store_def vary_of_def cw_def)
  from Cache_lead [of r now s c l flight, OF bp assms(2,3) this] show ?thesis
    by (simp add: led_reply_def deliver_def cw_def)
qed

lemma lookup_after_store:
  assumes "looks_up r2" "r_Method r2 = r_Method r" "r_Path r2 = r_Path r"
    and "buildKey r2 (vary_of cw) = buildKey r (vary_of cw)"
    and "lru_inv (c_lru c)"
    and "maxBytes (c_lru c) \<le> 0 \<or> int (length (cap_body cw)) \<le> maxBytes (c_lru c)"
    and "t2 \<le> e_ExpiresAt (stored_entry sha256 ttl t cw)"
  shows "fst (cache_lookup t2 (after_store sha256 ttl t cw r c) r2) = Some (stored_entry sha256 ttl t cw)"
proof -
  have "lookup_key (after_store sha256 ttl t cw r c) r2 = buildKey r (vary_of cw)"
    using assms(2-4) by (simp add: lookup_key_def after_store_def headersFor_def vary_record_def)
  moreover have "fst (lru_Get t2 (buildKey r (vary_of cw))
      (lru_Set (buildKey r (vary_of cw)) (stored_entry sha256 ttl t cw) (c_lru c))) =
      Some (stored_entry sha256 ttl t cw)"
    by (rule Get_after_Set [OF assms(5) _ assms(7)])
      (use assms(6) in \<open>simp add: stored_entry_def Size_def Let_def\<close>)
  ultimately show ?thesis
    using assms(1) by (simp add: cache_lookup_def looks_up_def after_store_def)
qed

text \<open>A lookup that missed leaves a cache that keeps its invariant and its bounds.\<close>

lemma miss_keeps:
  assumes "cache_lookup t c r = (hit, l)" "lru_inv (c_lru c)"
  shows "lru_inv l \<and> maxBytes l = maxBytes (c_lru c)"
  using assms lru_inv_Get [of "c_lru c" t "lookup_key c r"] lru_refines [of "c_lru c"]
  by (auto simp: cache_lookup_def lru_inv_def split: if_splits) (metis snd_conv)+

lemma miss_then_hit:
  fixes sha256 :: "string \<Rightarrow> 8 word list" and ttl :: duration
  assumes r: "looks_up r" "looks_up r2" "r_Method r2 = r_Method r" "r_Path r2 = r_Path r"
    and miss: "cache_lookup (now s) c r = (None, l)" "flight (lookup_key c r) = None"
    and up: "next empty_header r s = ((ops, Returned_ok), s')"
    and inv: "lru_inv (c_lru c)"
  defines "cw \<equiv> fold capture_op ops new_captureWriter"
  defines "e \<equiv> stored_entry sha256 ttl (now s') cw"
  assumes store: "captured_cacheable cw r"
    and key: "buildKey r2 (vary_of cw) = buildKey r (vary_of cw)"
    and fits: "maxBytes (c_lru c) \<le> 0 \<or> int (length (cap_body cw)) \<le> maxBytes (c_lru c)"
    and fresh: "now2 s2 \<le> e_ExpiresAt e"
  shows "\<exists>c1 c2. Cache sha256 now ttl flight next h r (c, s) = ((serveFromCache r e, Returned_ok), (c1, s')) \<and>
    Cache sha256 now2 ttl flight2 next2 h2 r2 (c1, s2) = ((serveFromCache r2 e, Returned_ok), (c2, s2))"
proof -
  define c1 where "c1 = after_store sha256 ttl (now s') cw r (c\<lparr>c_lru := l\<rparr>)"
  have first: "Cache sha256 now ttl flight next h r (c, s) = ((serveFromCache r e, Returned_ok), (c1, s'))"
    using Cache_stores [of r now s c l flight "next" ops s', OF r(1) miss up] store
    by (simp add: c1_def e_def cw_def)
  have "fst (cache_lookup (now2 s2) c1 r2) = Some e"
    unfolding c1_def e_def
    by (rule lookup_after_store) (use r key fits fresh miss_keeps [OF miss(1) inv] in \<open>simp_all add: e_def\<close>)
  then obtain l2 where "cache_lookup (now2 s2) c1 r2 = (Some e, l2)" by (metis prod.collapse)
  moreover have "\<not> bypasses r2" using r(2) by (simp add: looks_up_def)
  ultimately show ?thesis using first Cache_hit [of r2 now2 s2 c1 e l2] by blast
qed

lemma strip_any_id:
  assumes "\<forall>p\<in>set ps. hd p \<noteq> c"
  shows "strip_any ps (c # s) = c # s"
proof -
  have "find (\<lambda>p. p \<noteq> [] \<and> HasPrefix (c # s) p) ps = None"
    using assms by (auto simp: find_None_iff HasPrefix_def neq_Nil_conv)
  then show ?thesis by (simp add: strip_any.simps [of ps "c # s"])
qed

lemma TrimSpace_quoted: "TrimSpace (CHR 0x22 # s @ [CHR 0x22]) = CHR 0x22 # s @ [CHR 0x22]"
proof -
  have "\<forall>p\<in>set space_seqs. hd p \<noteq> CHR 0x22" "\<forall>p\<in>set (map rev space_seqs). hd p \<noteq> CHR 0x22"
    by (simp_all add: space_seqs_def)
  then show ?thesis by (simp add: TrimSpace_def strip_any_id)
qed

lemma etagMatches_member:
  assumes "CHR '','' \<notin> set s"
    and pre: "pre = [] \<or> last pre = CHR '',''" and post: "post = [] \<or> hd post = CHR '',''"
  shows "etagMatches (pre @ [CHR 0x22] @ s @ [CHR 0x22] @ post) (CHR 0x22 # s @ [CHR 0x22])"
proof -
  let ?tag = "CHR 0x22 # s @ [CHR 0x22]"
  have id: "SplitSeq (CHR '','') ?tag = [?tag]" by (rule SplitSeq_id) (use assms in simp)
  have "?tag \<in> set (SplitSeq (CHR '','') (?tag @ post))"
  proof (cases post)
    case (Cons x xs)
    with post SplitSeq_append [of "CHR '',''" ?tag xs] id show ?thesis by simp
  qed (use id in simp)
  moreover have "set (SplitSeq (CHR '','') (?tag @ post)) \<subseteq>
      set (SplitSeq (CHR '','') (pre @ ?tag @ post))"
  proof (cases pre rule: rev_cases)
    case (snoc xs x)
    with pre SplitSeq_append [of "CHR '',''" xs "?tag @ post"] show ?thesis by simp
  qed simp
  ultimately have "?tag \<in> set (SplitSeq (CHR '','') (pre @ ?tag @ post))" by blast
  moreover have "TrimPrefix ?tag ''W/'' = ?tag" by (simp add: TrimPrefix_def HasPrefix_def)
  ultimately show ?thesis
    by (auto simp: etagMatches_def list_ex_iff TrimSpace_quoted Let_def intro!: bexI [of _ ?tag])
qed

lemma hex_digit_no_comma: "n < 16 \<Longrightarrow> hex_digit n \<noteq> CHR '',''"
proof -
  have "\<forall>n\<in>set [0..<16]. hex_digit n \<noteq> CHR '',''" by code_simp
  then show "n < 16 \<Longrightarrow> hex_digit n \<noteq> CHR '',''" by simp
qed

lemma EncodeToString_no_comma: "CHR '','' \<notin> set (EncodeToString bs)"
proof (induction bs)
  case (Cons b bs)
  have "unat b div 16 < 16"
    by (rule less_mult_imp_div_less) (use unsigned_less [of b, where ?'a = nat] in simp)
  then have "CHR '','' \<noteq> hex_digit (unat b div 16)" "CHR '','' \<noteq> hex_digit (unat b mod 16)"
    using hex_digit_no_comma [of "unat b div 16"] hex_digit_no_comma [of "unat b mod 16"] by simp_all
  with Cons show ?case by (simp add: EncodeToString_def hex_byte_def)
qed (simp add: EncodeToString_def)

section \<open>Properties\<close>

definition ok_handler :: "wop list \<Rightarrow> string list \<Rightarrow> unit handler" where
  "ok_handler hs bs h r s = ((plain_reply hs 200 bs, Returned_ok), s)"

definition new_cache :: "int \<Rightarrow> int \<Rightarrow> cache_state" where
  "new_cache me mb = \<lparr>c_lru = NewLRU me mb, c_vary = newVaryState\<rparr>"

definition zero_sha :: "string \<Rightarrow> 8 word list" where
  "zero_sha b = replicate 32 0"

lemma new_cache_misses:
  "cache_lookup t (new_cache me mb) r = (None, NewLRU me mb)"
  by (simp add: cache_lookup_def new_cache_def lru_Get_def NewLRU_def)

lemma new_cache_inv: "lru_inv (c_lru (new_cache me mb))"
  by (simp add: new_cache_def lru_inv_New)


lemma simple_looks_up: "looks_up (simple_request ''GET'' p q)"
  by (simp add: looks_up_def bypasses_def simple_request_def header_Get_def empty_header_def
      parseCacheControl_def)

text \<open>A concrete run that witnesses use: a new cache and a request that misses and is stored.\<close>

lemma fresh_store:
  assumes "looks_up r" "list_all is_header_op hs"
    and "captured_cacheable \<lparr>cap_status = 200, cap_header = fold header_op hs empty_header,
           cap_body = concat bs\<rparr> r"
  shows "Cache sha256 now ttl (\<lambda>_. None) (ok_handler hs bs) h r (new_cache me mb, ()) =
    (let cw = \<lparr>cap_status = 200, cap_header = fold header_op hs empty_header, cap_body = concat bs\<rparr>
     in ((serveFromCache r (stored_entry sha256 ttl (now ()) cw), Returned_ok),
         (after_store sha256 ttl (now ()) cw r (new_cache me mb), ())))"
  using Cache_stores [of r now "()" "new_cache me mb" "NewLRU me mb" "\<lambda>_. None" "ok_handler hs bs"
      "plain_reply hs 200 bs" "()" sha256 ttl h] assms new_cache_misses
  by (simp add: ok_handler_def capture_plain_reply Let_def new_cache_def)

lemmas header_evals = header_Get_def empty_header_def parseCacheControl_def parseVary_def

lemma plain_cacheable:
  "header_Get (r_Header r) ''Authorization'' = [] \<Longrightarrow>
   captured_cacheable \<lparr>cap_status = 200, cap_header = empty_header, cap_body = b\<rparr> r"
  by (simp add: captured_cacheable_def cacheableResponse_def header_evals)


text \<open>
  C13: a stored response is served again. After a request that missed and whose response could
  be stored, a second such request that arrives before the entry expires gets the same
  response, status and body as the upstream sent them; the handler behind the cache, whatever
  it would answer now, is not called and its state does not change.
\<close>
theorem Cache_serves_stored_response:
  fixes sha256 :: "string \<Rightarrow> 8 word list" and ttl :: duration
  assumes r: "looks_up r" "header_Get (r_Header r) ''If-None-Match'' = []"
    and miss: "cache_lookup (now s) c r = (None, l)" "flight (lookup_key c r) = None"
    and up: "next empty_header r s = ((plain_reply hs 200 bs, Returned_ok), s')" "list_all is_header_op hs"
    and inv: "lru_inv (c_lru c)"
  defines "cw \<equiv> \<lparr>cap_status = 200, cap_header = fold header_op hs empty_header, cap_body = concat bs\<rparr>"
  assumes store: "captured_cacheable cw r"
    and fits: "maxBytes (c_lru c) \<le> 0 \<or> int (length (concat bs)) \<le> maxBytes (c_lru c)"
    and fresh: "now2 s2 \<le> e_ExpiresAt (stored_entry sha256 ttl (now s') cw)"
  shows "\<exists>ops c1 c2.
    Cache sha256 now ttl flight next h r (c, s) = ((ops, Returned_ok), (c1, s')) \<and>
    Cache sha256 now2 ttl flight2 next2 h2 r (c1, s2) = ((ops, Returned_ok), (c2, s2)) \<and>
    rw_status (served ops) = Some 200 \<and> rw_body (served ops) = concat bs"
proof -
  let ?e = "stored_entry sha256 ttl (now s') cw"
  have cw: "fold capture_op (plain_reply hs 200 bs) new_captureWriter = cw"
    using up(2) by (simp add: capture_plain_reply cw_def)
  have "rw_status (served (serveFromCache r ?e)) = Some 200 \<and>
      rw_body (served (serveFromCache r ?e)) = concat bs"
    using r(2) served_writeRaw [of new_rwriter 200]
    by (simp add: serveFromCache_def stored_entry_def cw_def served_def Let_def new_rwriter_def
        body_allowed_def)
  moreover from miss_then_hit [of r r now s c l flight "next" "plain_reply hs 200 bs" s' now2 s2 sha256 ttl h flight2 next2 h2,
      OF r(1) r(1) refl refl miss up(1) inv]
  have "\<exists>c1 c2. Cache sha256 now ttl flight next h r (c, s) = ((serveFromCache r ?e, Returned_ok), (c1, s')) \<and>
      Cache sha256 now2 ttl flight2 next2 h2 r (c1, s2) = ((serveFromCache r ?e, Returned_ok), (c2, s2))"
    using store fits fresh by (simp add: cw) (simp add: cw_def)
  ultimately show ?thesis by blast
qed

theorem Cache_serves_stored_response_witness:
  "\<exists>ops c1 c2.
    Cache zero_sha (\<lambda>_. 0) 60 (\<lambda>_. None) (ok_handler [] [''hi'']) empty_header
      (simple_request ''GET'' ''/a'' []) (new_cache 10 100, ()) = ((ops, Returned_ok), (c1, ())) \<and>
    Cache zero_sha (\<lambda>_. 7) 60 (\<lambda>_. None) (ok_handler [] [''other'']) empty_header
      (simple_request ''GET'' ''/a'' []) (c1, ()) = ((ops, Returned_ok), (c2, ())) \<and>
    rw_body (served ops) = ''hi''"
proof -
  let ?r = "simple_request ''GET'' ''/a'' []"
  have "captured_cacheable \<lparr>cap_status = 200, cap_header = empty_header, cap_body = ''hi''\<rparr> ?r"
    by (rule plain_cacheable) (simp add: simple_request_def header_evals)
  moreover have "header_Get (r_Header ?r) ''If-None-Match'' = []" by (simp add: simple_request_def header_evals)
  moreover have "maxBytes (c_lru (new_cache 10 100)) = 100" by (simp add: new_cache_def NewLRU_def)
  moreover have "e_ExpiresAt (stored_entry zero_sha 60 0
      \<lparr>cap_status = 200, cap_header = empty_header, cap_body = ''hi''\<rparr>) = 60"
    by (simp add: stored_entry_def cache_ttl_def header_evals Let_def)
  ultimately show ?thesis
    using Cache_serves_stored_response [of ?r "\<lambda>_. 0" "()" "new_cache 10 100" "NewLRU 10 100" "\<lambda>_. None"
        "ok_handler [] [''hi'']" "[]" "[''hi'']" "()" "\<lambda>_. 7" "()" zero_sha 60 empty_header "\<lambda>_. None"
        "ok_handler [] [''other'']" empty_header] simple_looks_up new_cache_misses new_cache_inv
    by (auto simp: ok_handler_def)
qed

text \<open>
  Conditional requests. A client that sends back the entity tag the cache computed, alone or
  anywhere in a comma-separated list, gets 304 with that tag and no body.
\<close>
lemma conditional_request_gets_304:
  assumes "e_ETag e = computeETag sha256 b"
    and "header_Get (r_Header r) ''If-None-Match'' = pre @ computeETag sha256 b @ post"
    and "pre = [] \<or> last pre = CHR '',''" and "post = [] \<or> hd post = CHR '',''"
  shows "rw_status (served (serveFromCache r e)) = Some 304 \<and>
    rw_body (served (serveFromCache r e)) = [] \<and>
    header_Get (rw_sent (served (serveFromCache r e))) ''ETag'' = computeETag sha256 b"
proof -
  have "etagMatches (header_Get (r_Header r) ''If-None-Match'') (e_ETag e)"
    using etagMatches_member [OF EncodeToString_no_comma assms(3,4), of "take 16 (sha256 b)"] assms(1,2)
    by (simp add: computeETag_def)
  moreover have "header_Get (r_Header r) ''If-None-Match'' \<noteq> []"
    using assms(2) by (simp add: computeETag_def)
  ultimately show ?thesis
    using assms(1) by (simp add: serveFromCache_def served_def rw_WriteHeader_def new_rwriter_def
        header_Get_Set Let_def)
qed

text \<open>
  What must not be stored is not stored. When the response is not 200, says \<^verbatim>\<open>no-store\<close> or
  \<^verbatim>\<open>private\<close>, varies on everything, or answers a request with credentials without being
  marked \<^verbatim>\<open>public\<close>, the request adds nothing to the cache: every entry it holds afterwards it
  held before, and the remembered Vary headers are unchanged.
\<close>
lemma Cache_stores_nothing_uncacheable:
  assumes "next empty_header r s = ((ops, Returned_ok), s')"
    and "\<not> captured_cacheable (fold capture_op ops new_captureWriter) r"
    and "lru_inv (c_lru c)"
    and "Cache sha256 now ttl flight next h r (c, s) = (reply, (c', s1))"
  shows "map_of (contents (c_lru c')) \<subseteq>\<^sub>m map_of (contents (c_lru c)) \<and> c_vary c' = c_vary c"
proof (cases "bypasses r")
  case True
  with assms(4) show ?thesis by (auto simp: Cache_bypass)
next
  case False
  obtain hit l where look: "cache_lookup (now s) c r = (hit, l)" by fastforce
  have l: "map_of (contents l) \<subseteq>\<^sub>m map_of (contents (c_lru c))"
    using look lru.get_keeps [OF assms(3), of "now s" "lookup_key c r"]
    by (auto simp: cache_lookup_def split: if_splits)
  have "fillCache sha256 now next ttl r (c\<lparr>c_lru := l\<rparr>, s) =
      (Inr (SfRaw (cap_status (fold capture_op ops new_captureWriter))
         (cap_header (fold capture_op ops new_captureWriter))
         (cap_body (fold capture_op ops new_captureWriter))), c\<lparr>c_lru := l\<rparr>, s')"
    using fillCache_returned [of "next" r s ops s', OF assms(1)] assms(2) by simp
  then have "c' = c\<lparr>c_lru := l\<rparr>"
    using assms(4) False look Cache_hit [of r now s c _ l] Cache_follow [of r now s c l flight]
      Cache_lead [of r now s c l flight sha256 "next" ttl]
    by (cases hit; cases "flight (lookup_key c r)") auto
  with l show ?thesis by simp
qed

definition private_handler :: "unit handler" where
  "private_handler h r s =
     ((plain_reply [HeaderSet ''Cache-Control'' ''private''] 200 [''secret''], Returned_ok), s)"

lemma private_parse: "parseCacheControl ''private'' ''private'' = Some []"
  by code_simp


text \<open>
  \<^verbatim>\<open>max-age\<close> does not always override the default life time. A response with
  \<^verbatim>\<open>max-age=0\<close>, which no cache may reuse without asking, is kept for the configured default;
  and from 9223372037 seconds on the conversion to nanoseconds wraps around, so a response
  meant to be kept forever has expired when it is stored.
\<close>
lemma max_age_boundaries:
  "cache_ttl ttl (parseCacheControl ''max-age=0'') = ttl \<and>
   cache_ttl ttl (parseCacheControl ''max-age=9223372036'') = 9223372036 * Second \<and>
   cache_ttl ttl (parseCacheControl ''max-age=9223372037'') < 0"
proof -
  have "parseCacheControl ''max-age=0'' ''max-age'' = Some ''0''"
    "parseCacheControl ''max-age=9223372036'' ''max-age'' = Some ''9223372036''"
    "parseCacheControl ''max-age=9223372037'' ''max-age'' = Some ''9223372037''"
    by code_simp+
  moreover have "Atoi ''0'' = Some 0" "Atoi ''9223372036'' = Some 9223372036"
    "Atoi ''9223372037'' = Some 9223372037"
    by code_simp+
  ultimately show ?thesis by (simp add: cache_ttl_def duration_defs i64_def)
qed

end
