(* ===== verification/Circuit_Breaker.thy ===== *)
theory Circuit_Breaker
  imports Gateway_Prelude
begin

text \<open>
  \<^verbatim>\<open>internal/circuitbreaker/breaker.go\<close>. Every method of \<open>Breaker\<close> runs under its
  mutex, so a method is one atomic step and a concurrent execution is a sequence of events.
  \<^verbatim>\<open>time.Now()\<close> is the argument \<open>now\<close> of the methods that read the clock.
\<close>

section \<open>State and operations\<close>

datatype breaker_error = ErrOpen

datatype breaker_state = stateClosed | stateOpen | stateHalfOpen

record breaker =
  br_state :: breaker_state
  br_failures :: int
  br_maxFailures :: int
  br_timeout :: duration
  br_openedAt :: time

definition NewBreaker :: "int \<Rightarrow> duration \<Rightarrow> breaker" where
  "NewBreaker maxFailures timeout =
     \<lparr>br_state = stateClosed, br_failures = 0, br_maxFailures = maxFailures,
      br_timeout = timeout, br_openedAt = 0\<rparr>"

definition breaker_Allow :: "time \<Rightarrow> breaker \<Rightarrow> breaker_error option \<times> breaker" where
  "breaker_Allow now b =
     (case br_state b of
        stateOpen \<Rightarrow>
          if now - br_openedAt b \<ge> br_timeout b then (None, b\<lparr>br_state := stateHalfOpen\<rparr>)
          else (Some ErrOpen, b)
      | stateHalfOpen \<Rightarrow> (Some ErrOpen, b)
      | stateClosed \<Rightarrow> (None, b))"

definition RecordSuccess :: "breaker \<Rightarrow> breaker" where
  "RecordSuccess b =
     (let b = b\<lparr>br_failures := 0\<rparr>
      in if br_state b = stateHalfOpen then b\<lparr>br_state := stateClosed\<rparr> else b)"

definition RecordFailure :: "time \<Rightarrow> breaker \<Rightarrow> breaker" where
  "RecordFailure now b =
     (let b = b\<lparr>br_failures := i64 (br_failures b + 1)\<rparr>
      in if br_state b = stateHalfOpen \<or> br_failures b \<ge> br_maxFailures b
         then b\<lparr>br_state := stateOpen, br_openedAt := now\<rparr> else b)"

definition breaker_State :: "breaker \<Rightarrow> string" where
  "breaker_State b =
     (case br_state b of
        stateOpen \<Rightarrow> ''open'' | stateHalfOpen \<Rightarrow> ''half-open'' | stateClosed \<Rightarrow> ''closed'')"

section \<open>Executions\<close>

datatype breaker_event = EvAllow time | EvSuccess | EvFailure time

fun breaker_step :: "breaker_event \<Rightarrow> breaker \<Rightarrow> breaker" where
  "breaker_step (EvAllow now) b = snd (breaker_Allow now b)"
| "breaker_step EvSuccess b = RecordSuccess b"
| "breaker_step (EvFailure now) b = RecordFailure now b"

abbreviation breaker_run :: "breaker_event list \<Rightarrow> breaker \<Rightarrow> breaker" where
  "breaker_run \<equiv> fold breaker_step"

fun is_failure :: "breaker_event \<Rightarrow> bool" where
  "is_failure (EvFailure now) = True"
| "is_failure e = False"

fun is_record :: "breaker_event \<Rightarrow> bool" where
  "is_record (EvAllow now) = False"
| "is_record e = True"

text \<open>
  The abstract notion behind the counter: how many of the outcomes recorded last were
  failures, with no success after them. Calls to \<open>Allow\<close> do not count.
\<close>

definition consecutive_failures :: "breaker_event list \<Rightarrow> nat" where
  "consecutive_failures evs = length (takeWhile is_failure (filter is_record (rev evs)))"

fun allow_run :: "time list \<Rightarrow> breaker \<Rightarrow> breaker_error option list \<times> breaker" where
  "allow_run [] b = ([], b)"
| "allow_run (t # ts) b =
     (let (r, b') = breaker_Allow t b in (r # fst (allow_run ts b'), snd (allow_run ts b')))"

definition breaker_inv :: "breaker \<Rightarrow> bool" where
  "breaker_inv b \<longleftrightarrow>
     is_i64 (br_failures b) \<and> is_i64 (br_maxFailures b) \<and> 0 < br_maxFailures b \<and>
     (br_state b = stateClosed \<longrightarrow> 0 \<le> br_failures b \<and> br_failures b < br_maxFailures b)"

section \<open>Laws of the operations\<close>

lemma Allow_simps [breaker_simps]:
  "br_state b = stateClosed \<Longrightarrow> breaker_Allow now b = (None, b)"
  "br_state b = stateHalfOpen \<Longrightarrow> breaker_Allow now b = (Some ErrOpen, b)"
  "br_state b = stateOpen \<Longrightarrow> now - br_openedAt b < br_timeout b \<Longrightarrow>
     breaker_Allow now b = (Some ErrOpen, b)"
  "br_state b = stateOpen \<Longrightarrow> now - br_openedAt b \<ge> br_timeout b \<Longrightarrow>
     breaker_Allow now b = (None, b\<lparr>br_state := stateHalfOpen\<rparr>)"
  by (simp_all add: breaker_Allow_def)

lemma RecordSuccess_fields [breaker_simps]:
  "br_failures (RecordSuccess b) = 0"
  "br_maxFailures (RecordSuccess b) = br_maxFailures b"
  "br_timeout (RecordSuccess b) = br_timeout b"
  "br_openedAt (RecordSuccess b) = br_openedAt b"
  "br_state (RecordSuccess b) =
     (if br_state b = stateHalfOpen then stateClosed else br_state b)"
  by (simp_all add: RecordSuccess_def Let_def)

lemma RecordFailure_fields [breaker_simps]:
  "br_failures (RecordFailure now b) = i64 (br_failures b + 1)"
  "br_maxFailures (RecordFailure now b) = br_maxFailures b"
  "br_timeout (RecordFailure now b) = br_timeout b"
  "br_state (RecordFailure now b) =
     (if br_state b = stateHalfOpen \<or> i64 (br_failures b + 1) \<ge> br_maxFailures b
      then stateOpen else br_state b)"
  by (simp_all add: RecordFailure_def Let_def)

lemma Allow_fields [breaker_simps]:
  "br_failures (snd (breaker_Allow now b)) = br_failures b"
  "br_maxFailures (snd (breaker_Allow now b)) = br_maxFailures b"
  "br_timeout (snd (breaker_Allow now b)) = br_timeout b"
  "br_openedAt (snd (breaker_Allow now b)) = br_openedAt b"
  by (simp_all add: breaker_Allow_def split: breaker_state.split)

lemma Allow_closed_iff [breaker_simps]:
  "br_state (snd (breaker_Allow now b)) = stateClosed \<longleftrightarrow> br_state b = stateClosed"
  by (cases "br_state b") (simp_all add: breaker_Allow_def)

lemma breaker_step_maxFailures [breaker_simps]:
  "br_maxFailures (breaker_step e b) = br_maxFailures b"
  by (cases e) (simp_all add: breaker_simps)

lemma breaker_run_maxFailures [breaker_simps]:
  "br_maxFailures (breaker_run evs b) = br_maxFailures b"
  by (induction evs arbitrary: b) (simp_all add: breaker_simps)

lemma is_i64_Suc: "is_i64 m \<Longrightarrow> 0 \<le> x \<Longrightarrow> x < m \<Longrightarrow> is_i64 (x + 1)"
  by (simp add: is_i64_def)

lemma breaker_inv_Allow: "breaker_inv b \<Longrightarrow> breaker_inv (snd (breaker_Allow now b))"
  by (simp add: breaker_inv_def breaker_simps)

lemma breaker_inv_RecordSuccess: "breaker_inv b \<Longrightarrow> breaker_inv (RecordSuccess b)"
  by (simp add: breaker_inv_def breaker_simps is_i64_def)

lemma breaker_inv_RecordFailure: "breaker_inv b \<Longrightarrow> breaker_inv (RecordFailure now b)"
  by (auto simp: breaker_inv_def breaker_simps i64_range is_i64_Suc)

lemmas breaker_inv_ops =
  breaker_inv_Allow breaker_inv_RecordSuccess breaker_inv_RecordFailure

lemma breaker_inv_NewBreaker:
  "0 < m \<Longrightarrow> is_i64 m \<Longrightarrow> breaker_inv (NewBreaker m t)"
  by (simp add: breaker_inv_def NewBreaker_def is_i64_def)

interpretation brk: invariant_machine breaker_step breaker_inv
proof
  fix b e assume "breaker_inv b"
  then show "breaker_inv (breaker_step e b)" by (cases e) (simp_all add: breaker_inv_ops)
qed

section \<open>Counting consecutive failures\<close>

lemma consecutive_failures_simps [simp]:
  "consecutive_failures [] = 0"
  "consecutive_failures (evs @ [EvAllow t]) = consecutive_failures evs"
  "consecutive_failures (evs @ [EvSuccess]) = 0"
  "consecutive_failures (evs @ [EvFailure t]) = Suc (consecutive_failures evs)"
  by (simp_all add: consecutive_failures_def)

lemma consecutive_failures_le: "consecutive_failures evs \<le> length (filter is_failure evs)"
proof (induction evs rule: rev_induct)
  case (snoc e evs)
  then show ?case by (cases e) simp_all
qed simp

lemma consecutive_failures_le_length: "consecutive_failures evs \<le> length evs"
  using consecutive_failures_le [of evs] length_filter_le [of is_failure evs] by linarith

lemma breaker_failures_run:
  "br_failures (breaker_run evs (NewBreaker m t)) = i64 (int (consecutive_failures evs))"
proof (induction evs rule: rev_induct)
  case Nil
  show ?case by (simp add: NewBreaker_def is_i64_def maxInt_def)
next
  case (snoc e evs)
  then show ?case
    by (cases e) (simp_all add: breaker_simps is_i64_def maxInt_def add.commute [of 1])
qed

lemma breaker_failures_run_small:
  assumes "int (length evs) \<le> maxInt"
  shows "br_failures (breaker_run evs (NewBreaker m t)) = int (consecutive_failures evs)"
proof -
  have "is_i64 (int (consecutive_failures evs))"
    using assms consecutive_failures_le_length [of evs] by (simp add: is_i64_def maxInt_def)
  then show ?thesis by (simp add: breaker_failures_run)
qed

lemma breaker_step_closed:
  assumes "br_state b = stateClosed"
  shows "br_state (breaker_step e b) = stateClosed \<longleftrightarrow>
    \<not> (is_failure e \<and> br_failures (breaker_step e b) \<ge> br_maxFailures b)"
  using assms by (cases e) (simp_all add: breaker_simps)

lemma NewBreaker_closed: "br_state (NewBreaker m t) = stateClosed"
  by (simp add: NewBreaker_def)

lemma NewBreaker_maxFailures: "br_maxFailures (NewBreaker m t) = m"
  by (simp add: NewBreaker_def)

lemmas NewBreaker_fields = NewBreaker_closed NewBreaker_maxFailures

lemma below_limit_stays_closed:
  assumes "int (length evs) \<le> maxInt"
    and "\<And>k. k \<le> length evs \<Longrightarrow> int (consecutive_failures (take k evs)) < m"
  shows "br_state (breaker_run evs (NewBreaker m t)) = stateClosed"
  using assms
proof (induction evs rule: rev_induct)
  case Nil
  show ?case by (simp add: NewBreaker_closed)
next
  case (snoc e evs)
  let ?b = "breaker_run evs (NewBreaker m t)"
  have closed: "br_state ?b = stateClosed"
  proof (rule snoc.IH)
    fix k assume "k \<le> length evs"
    then show "int (consecutive_failures (take k evs)) < m" using snoc.prems(2) [of k] by simp
  qed (use snoc.prems(1) in simp)
  have "br_failures (breaker_step e ?b) = int (consecutive_failures (evs @ [e]))"
    using breaker_failures_run_small [OF snoc.prems(1), of m t] by simp
  moreover have "int (consecutive_failures (evs @ [e])) < m"
    using snoc.prems(2) [of "length (evs @ [e])"] by simp
  ultimately show ?case
    using breaker_step_closed [OF closed, of e]
    by (simp add: breaker_simps NewBreaker_maxFailures)
qed

section \<open>Properties\<close>

text \<open>
  C16: a breaker is created closed and stays closed exactly as long as fewer than
  \<open>maxFailures\<close> failures were recorded in a row: in every prefix of every sequence of
  \<open>Allow\<close>, \<open>RecordSuccess\<close> and \<open>RecordFailure\<close> calls (shorter than the range of
  the counter), it has never left the closed state iff no prefix ends in \<open>maxFailures\<close>
  consecutive failures.
\<close>
theorem breaker_trips_exactly:
  assumes "0 < m" and "is_i64 m" and len: "int (length evs) \<le> maxInt"
  shows "(\<forall>k\<le>length evs. br_state (breaker_run (take k evs) (NewBreaker m t)) = stateClosed) \<longleftrightarrow>
         (\<forall>k\<le>length evs. int (consecutive_failures (take k evs)) < m)"
    (is "?closed \<longleftrightarrow> ?below")
proof
  assume closed: ?closed
  show ?below
  proof (intro allI impI)
    fix k assume k: "k \<le> length evs"
    have "breaker_inv (breaker_run (take k evs) (NewBreaker m t))"
      by (intro brk.run_inv breaker_inv_NewBreaker assms(1,2))
    moreover have "int (length (take k evs)) \<le> maxInt" using len by simp
    ultimately show "int (consecutive_failures (take k evs)) < m"
      using closed k breaker_failures_run_small [of "take k evs" m t]
      by (simp add: breaker_inv_def breaker_simps NewBreaker_maxFailures)
  qed
next
  assume below: ?below
  show ?closed
  proof (intro allI impI)
    fix k assume k: "k \<le> length evs"
    show "br_state (breaker_run (take k evs) (NewBreaker m t)) = stateClosed"
    proof (rule below_limit_stays_closed)
      fix j assume "j \<le> length (take k evs)"
      then show "int (consecutive_failures (take j (take k evs))) < m"
        using below k by (simp add: min_def)
    qed (use len in simp)
  qed
qed

theorem breaker_trips_exactly_witness:
  "(\<forall>k\<le>2. br_state (breaker_run (take k [EvFailure 5, EvFailure 7]) (NewBreaker 2 10)) = stateClosed) \<longleftrightarrow>
   (\<forall>k\<le>2. int (consecutive_failures (take k [EvFailure 5, EvFailure 7])) < 2)"
  using breaker_trips_exactly [of 2 "[EvFailure 5, EvFailure 7]" 10]
  by (simp add: is_i64_def maxInt_def numeral_2_eq_2)

text \<open>
  Once the breaker has left the closed state, and until an outcome is recorded, any
  number of concurrent \<open>Allow\<close> calls admits at most one request: exactly one if the
  breaker is open and some call comes \<open>timeout\<close> or more after it opened, none otherwise.
\<close>
lemma breaker_admits_one_probe:
  assumes "br_state b \<noteq> stateClosed"
  shows "length (filter (\<lambda>r. r = None) (fst (allow_run ts b))) =
    (if br_state b = stateOpen \<and> (\<exists>t\<in>set ts. t - br_openedAt b \<ge> br_timeout b) then 1 else 0)"
  using assms
proof (induction ts arbitrary: b)
  case (Cons t ts)
  show ?case
  proof (cases "br_state b = stateOpen \<and> t - br_openedAt b \<ge> br_timeout b")
    case True
    then show ?thesis
      using Cons.IH [of "b\<lparr>br_state := stateHalfOpen\<rparr>"]
      by (simp add: breaker_simps)
  next
    case False
    then have "breaker_Allow t b = (Some ErrOpen, b)"
      using Cons.prems by (cases "br_state b") (simp_all add: breaker_simps)
    then show ?thesis using Cons.IH [OF Cons.prems] False by auto
  qed
qed simp

text \<open>
  Without a \<open>circuit_breaker\<close> block the server installs a breaker with threshold
  \<open>math.MaxInt\<close>; it stays closed and admits every request as long as fewer than
  \<open>math.MaxInt\<close> outcomes were recorded, whatever they were.
\<close>
lemma noop_breaker_never_trips:
  assumes "int (length evs) < maxInt"
  shows "fst (breaker_Allow now (breaker_run evs (NewBreaker maxInt Hour))) = None"
proof -
  have "int (consecutive_failures (take k evs)) < maxInt" for k
    using consecutive_failures_le_length [of "take k evs"] assms by simp
  then have "br_state (breaker_run evs (NewBreaker maxInt Hour)) = stateClosed"
    using assms by (intro below_limit_stays_closed) auto
  then show ?thesis by (simp add: breaker_simps)
qed

section \<open>Probes\<close>

text \<open>The times at which calls of \<open>Allow\<close> are admitted in an execution, and all times in it.\<close>

fun admissions :: "breaker_event list \<Rightarrow> breaker \<Rightarrow> time list" where
  "admissions [] b = []"
| "admissions (EvAllow t # evs) b =
     (if fst (breaker_Allow t b) = None then [t] else []) @ admissions evs (snd (breaker_Allow t b))"
| "admissions (ev # evs) b = admissions evs (breaker_step ev b)"

fun event_times :: "breaker_event list \<Rightarrow> time list" where
  "event_times [] = []"
| "event_times (EvAllow t # evs) = t # event_times evs"
| "event_times (EvFailure t # evs) = t # event_times evs"
| "event_times (EvSuccess # evs) = event_times evs"

definition never_closed :: "breaker_event list \<Rightarrow> breaker \<Rightarrow> bool" where
  "never_closed evs b \<longleftrightarrow> (\<forall>k\<le>length evs. br_state (breaker_run (take k evs) b) \<noteq> stateClosed)"

lemma never_closed_Cons [simp]:
  "never_closed (ev # evs) b \<longleftrightarrow> br_state b \<noteq> stateClosed \<and> never_closed evs (breaker_step ev b)"
  unfolding never_closed_def less_Suc_eq_le [symmetric] by (simp add: All_less_Suc2)

text \<open>Before this time a breaker that is not closed admits nothing, if it is now \<open>n\<close> or later.\<close>

definition next_probe :: "time \<Rightarrow> breaker \<Rightarrow> time" where
  "next_probe n b = (if br_state b = stateHalfOpen then n else br_openedAt b) + br_timeout b"

lemma admissions_spaced:
  assumes "never_closed evs b" "sorted (n # event_times evs)" "br_openedAt b \<le> n"
  shows "sorted_wrt (\<lambda>s t. s + br_timeout b \<le> t) (admissions evs b) \<and>
    (\<forall>t \<in> set (admissions evs b). next_probe n b \<le> t)"
  using assms
proof (induction evs arbitrary: b n)
  case (Cons ev evs)
  show ?case
  proof (cases ev)
    case (EvAllow t)
    let ?b = "snd (breaker_Allow t b)"
    have IH: "sorted_wrt (\<lambda>s t. s + br_timeout ?b \<le> t) (admissions evs ?b) \<and>
        (\<forall>t' \<in> set (admissions evs ?b). next_probe t ?b \<le> t')"
      using Cons.prems by (intro Cons.IH) (auto simp: EvAllow breaker_simps)
    with Cons.prems show ?thesis
      by (cases "br_state b"; cases "t - br_openedAt b \<ge> br_timeout b")
        (force simp: EvAllow breaker_simps next_probe_def)+
  next
    case EvSuccess
    have "sorted_wrt (\<lambda>s t. s + br_timeout (RecordSuccess b) \<le> t) (admissions evs (RecordSuccess b)) \<and>
        (\<forall>t' \<in> set (admissions evs (RecordSuccess b)). next_probe n (RecordSuccess b) \<le> t')"
      using Cons.prems by (intro Cons.IH) (auto simp: EvSuccess breaker_simps)
    moreover have "br_state b \<noteq> stateHalfOpen"
      using Cons.prems(1) by (cases evs) (auto simp: EvSuccess breaker_simps never_closed_def)
    ultimately show ?thesis by (simp add: EvSuccess breaker_simps next_probe_def)
  next
    case (EvFailure t)
    let ?b = "RecordFailure t b"
    have "br_openedAt ?b \<le> t" "next_probe n b \<le> next_probe t ?b"
      using Cons.prems by (auto simp: EvFailure RecordFailure_def Let_def next_probe_def)
    moreover have "sorted_wrt (\<lambda>s t. s + br_timeout ?b \<le> t) (admissions evs ?b) \<and>
        (\<forall>t' \<in> set (admissions evs ?b). next_probe t ?b \<le> t')"
      using Cons.prems \<open>br_openedAt ?b \<le> t\<close> by (intro Cons.IH) (auto simp: EvFailure)
    ultimately show ?thesis by (auto simp: EvFailure breaker_simps)
  qed
qed simp

lemma spaced_nth:
  assumes "sorted_wrt (\<lambda>s t. s + d \<le> (t :: int)) ts" "j < length ts" "i \<le> j"
  shows "ts ! i + int (j - i) * d \<le> ts ! j"
  using assms(3,2)
proof (induction rule: dec_induct)
  case (step k)
  then have "ts ! k + d \<le> ts ! Suc k" using sorted_wrt_nth_less [OF assms(1), of k "Suc k"] by simp
  moreover have "int (Suc k - i) * d = int (k - i) * d + d"
    using step.hyps by (simp add: Suc_diff_le distrib_right)
  ultimately show ?case using step by simp
qed simp

text \<open>
  C24: an upstream that does not recover is probed at most once per timeout. In every execution
  in which the breaker stays out of the closed state, whatever requests are admitted and
  whenever outcomes are recorded, those of requests from before it opened included, admitted
  requests are at least the timeout apart, so that \<open>n\<close> probes take \<open>n - 1\<close> timeouts.
\<close>
theorem breaker_probes_spaced:
  assumes "never_closed evs b" "sorted (br_openedAt b # event_times evs)"
    and "i \<le> j" "j < length (admissions evs b)"
  shows "admissions evs b ! i + int (j - i) * br_timeout b \<le> admissions evs b ! j"
  using admissions_spaced [OF assms(1,2) order_refl] assms(3,4) by (intro spaced_nth) auto

theorem breaker_probes_spaced_witness:
  "let b = \<lparr>br_state = stateOpen, br_failures = 3, br_maxFailures = 3, br_timeout = 50, br_openedAt = 100\<rparr>;
       ts = admissions [EvAllow 120, EvAllow 150, EvFailure 160, EvAllow 200, EvAllow 210, EvAllow 211] b
   in ts ! 0 + 1 * 50 \<le> ts ! 1"
proof -
  let ?b = "\<lparr>br_state = stateOpen, br_failures = 3, br_maxFailures = 3, br_timeout = 50, br_openedAt = 100\<rparr>"
  let ?evs = "[EvAllow 120, EvAllow 150, EvFailure 160, EvAllow 200, EvAllow 210, EvAllow 211]"
  have "never_closed ?evs ?b" by (simp add: breaker_Allow_def RecordFailure_def Let_def) (simp add: never_closed_def)
  moreover have "length (admissions ?evs ?b) = 2" by (simp add: breaker_Allow_def RecordFailure_def Let_def)
  ultimately show ?thesis
    using breaker_probes_spaced [of ?evs ?b 0 1] by (simp add: Let_def)
qed

end
