(* ===== verification/Load_Balancer.thy ===== *)
theory Load_Balancer
  imports Gateway_Prelude "HOL-Library.Multiset"
begin

text \<open>
  \<^verbatim>\<open>internal/loadbalancer/roundrobin.go\<close>. The counter is a 64-bit word that wraps.
  \<open>Next\<close> is one call running alone; \<open>rr_step\<close> interleaves any number of concurrent calls,
  one atomic \<open>counter.Add(1)\<close> at a time. The health checker, an interface in the code, is
  a predicate on URLs.
\<close>

section \<open>State and operations\<close>

datatype lb_error = ErrNoHealthyUpstreams

record round_robin =
  rr_urls :: "string list"
  rr_counter :: "64 word"

definition NewRoundRobin :: "string list \<Rightarrow> round_robin" where
  "NewRoundRobin urls = \<lparr>rr_urls = urls, rr_counter = 0\<rparr>"

text \<open>\<open>pick urls i\<close> is \<^verbatim>\<open>rr.urls[i%attempts]\<close>.\<close>

definition pick :: "string list \<Rightarrow> 64 word \<Rightarrow> string" where
  "pick urls i = urls ! unat (i mod word_of_nat (length urls))"

fun next_loop :: "(string \<Rightarrow> bool) \<Rightarrow> string list \<Rightarrow> nat \<Rightarrow> 64 word \<Rightarrow>
    (lb_error + string) \<times> 64 word" where
  "next_loop healthy urls 0 counter = (Inl ErrNoHealthyUpstreams, counter)"
| "next_loop healthy urls (Suc n) counter =
     (let counter = counter + 1; i = counter - 1; url = pick urls i
      in if healthy url then (Inr url, counter) else next_loop healthy urls n counter)"

definition Next :: "(string \<Rightarrow> bool) \<Rightarrow> round_robin \<Rightarrow> (lb_error + string) \<times> round_robin" where
  "Next healthy rr =
     (let (r, c) = next_loop healthy (rr_urls rr) (length (rr_urls rr)) (rr_counter rr)
      in (r, rr\<lparr>rr_counter := c\<rparr>))"

primrec next_results :: "nat \<Rightarrow> (string \<Rightarrow> bool) \<Rightarrow> round_robin \<Rightarrow> (lb_error + string) list" where
  "next_results 0 healthy rr = []"
| "next_results (Suc n) healthy rr =
     fst (Next healthy rr) # next_results n healthy (snd (Next healthy rr))"

section \<open>Concurrent calls\<close>

text \<open>A goroutine inside \<open>Next\<close> has some attempts left, or has returned.\<close>

datatype caller = Trying nat | Returned "lb_error + string"

type_synonym rr_system = "64 word \<times> (nat \<Rightarrow> caller)"

inductive rr_step :: "(string \<Rightarrow> bool) \<Rightarrow> string list \<Rightarrow> rr_system \<Rightarrow> rr_system \<Rightarrow> bool"
  for healthy urls where
  draw: "gs g = Trying (Suc n) \<Longrightarrow>
    rr_step healthy urls (c, gs)
      (c + 1, gs(g := if healthy (pick urls c) then Returned (Inr (pick urls c)) else Trying n))"
| give_up: "gs g = Trying 0 \<Longrightarrow>
    rr_step healthy urls (c, gs) (c, gs(g := Returned (Inl ErrNoHealthyUpstreams)))"

inductive rr_reachable :: "(string \<Rightarrow> bool) \<Rightarrow> string list \<Rightarrow> rr_system \<Rightarrow> bool"
  for healthy urls where
  start: "rr_reachable healthy urls (c, \<lambda>_. Trying (length urls))"
| step: "rr_reachable healthy urls s \<Longrightarrow> rr_step healthy urls s s' \<Longrightarrow> rr_reachable healthy urls s'"

inductive_cases rr_stepE: "rr_step healthy urls s s'"

section \<open>The interface of a load balancer\<close>

text \<open>
  \<^verbatim>\<open>proxy.LoadBalancer\<close>: what the proxy relies on is that an upstream it is given is one
  of the configured ones, and that the set of upstreams never changes.
\<close>

locale load_balancer =
  fixes next_upstream :: "'s \<Rightarrow> (lb_error + string) \<times> 's"
    and upstreams :: "'s \<Rightarrow> string set"
    and usable :: "'s \<Rightarrow> bool"
  assumes next_member: "usable s \<Longrightarrow> fst (next_upstream s) = Inr u \<Longrightarrow> u \<in> upstreams s"
    and next_upstreams: "upstreams (snd (next_upstream s)) = upstreams s"
    and next_usable: "usable s \<Longrightarrow> usable (snd (next_upstream s))"
begin

lemma next_in_range:
  "usable s \<Longrightarrow> upstreams s \<subseteq> A \<Longrightarrow> fst (next_upstream s) = Inr u \<Longrightarrow> u \<in> A"
  using next_member by blast

end

section \<open>Laws\<close>

lemma unat_mod_length:
  "length urls < 2 ^ 64 \<Longrightarrow>
   unat (i mod word_of_nat (length urls) :: 64 word) = unat i mod length urls"
  by (simp add: unat_mod_distrib unat_of_nat take_bit_nat_eq_self)

lemma pick_eq: "length urls < 2 ^ 64 \<Longrightarrow> pick urls i = urls ! (unat i mod length urls)"
  by (simp add: pick_def unat_mod_length)

lemma pick_member: "urls \<noteq> [] \<Longrightarrow> length urls < 2 ^ 64 \<Longrightarrow> pick urls i \<in> set urls"
  by (simp add: pick_eq)

lemma next_loop_result:
  assumes "urls \<noteq> []" "length urls < 2 ^ 64"
    and "fst (next_loop healthy urls n c) = Inr u"
  shows "u \<in> set urls \<and> healthy u"
  using assms(3)
  by (induction n arbitrary: c) (auto simp: Let_def pick_member [OF assms(1,2)] split: if_splits)

lemma rr_urls_Next [simp]: "rr_urls (snd (Next healthy rr)) = rr_urls rr"
  by (simp add: Next_def split: prod.split)

lemma Next_result:
  assumes "length (rr_urls rr) < 2 ^ 64" and "fst (Next healthy rr) = Inr u"
  shows "u \<in> set (rr_urls rr) \<and> healthy u"
proof -
  have r: "fst (next_loop healthy (rr_urls rr) (length (rr_urls rr)) (rr_counter rr)) = Inr u"
    using assms(2) by (simp add: Next_def split: prod.splits)
  then have "rr_urls rr \<noteq> []" by auto
  then show ?thesis using next_loop_result [OF _ assms(1) r] by blast
qed

interpretation rr: load_balancer "Next healthy" "\<lambda>rr. set (rr_urls rr)"
  "\<lambda>rr. length (rr_urls rr) < 2 ^ 64" for healthy
  by unfold_locales (use Next_result in blast, simp_all)

text \<open>
  The URLs that \<open>n\<close> attempts look at, when the counter does not wrap. A full round is a
  rotation of the configured list.
\<close>

definition probed :: "string list \<Rightarrow> nat \<Rightarrow> nat \<Rightarrow> string list" where
  "probed urls c n = map (\<lambda>j. urls ! ((c + j) mod length urls)) [0..<n]"

lemma probed_0 [simp]: "probed urls c 0 = []"
  by (simp add: probed_def)

lemma probed_Suc [simp]:
  "probed urls c (Suc n) = urls ! (c mod length urls) # probed urls (Suc c) n"
  by (simp add: probed_def upt_conv_Cons map_Suc_upt [symmetric] comp_def del: upt_Suc)

lemma probed_add: "probed urls c (m + n) = probed urls c m @ probed urls (c + m) n"
  by (induction m arbitrary: c) simp_all

lemma probed_round: "probed urls c (length urls) = rotate c urls"
  by (rule nth_equalityI) (simp_all add: probed_def nth_rotate)

lemma unat_Suc_64: "Suc (unat (c :: 64 word)) < 2 ^ 64 \<Longrightarrow> unat (c + 1) = Suc (unat c)"
  by (simp add: unat_word_ariths)

lemma next_loop_find:
  assumes "length urls < 2 ^ 64" and "unat c + n < 2 ^ 64"
  shows "fst (next_loop healthy urls n c) =
      (case find healthy (probed urls (unat c) n) of
         Some u \<Rightarrow> Inr u | None \<Rightarrow> Inl ErrNoHealthyUpstreams)"
    and "unat (snd (next_loop healthy urls n c)) =
      unat c + (if find healthy (probed urls (unat c) n) = None then n
                else Suc (length (takeWhile (\<lambda>u. \<not> healthy u) (probed urls (unat c) n))))"
  using assms(2)
  by (induction n arbitrary: c)
    (auto simp: Let_def pick_eq [OF assms(1)] unat_Suc_64 split: option.split)

lemma Next_rotation:
  assumes "length (rr_urls rr) < 2 ^ 64"
    and "unat (rr_counter rr) + length (rr_urls rr) < 2 ^ 64"
  shows "fst (Next healthy rr) =
      (case find healthy (rotate (unat (rr_counter rr)) (rr_urls rr)) of
         Some u \<Rightarrow> Inr u | None \<Rightarrow> Inl ErrNoHealthyUpstreams)"
  using next_loop_find(1) [OF assms, of healthy]
  by (simp add: Next_def probed_round case_prod_beta)

lemma Next_all_healthy:
  assumes "rr_urls rr \<noteq> []" "length (rr_urls rr) < 2 ^ 64" "\<forall>u\<in>set (rr_urls rr). healthy u"
  shows "Next healthy rr =
    (Inr (pick (rr_urls rr) (rr_counter rr)), rr\<lparr>rr_counter := rr_counter rr + 1\<rparr>)"
  using assms pick_member [OF assms(1,2), of "rr_counter rr"]
  by (cases "rr_urls rr") (auto simp: Next_def Let_def)

lemma next_results_all_healthy:
  assumes "rr_urls rr \<noteq> []" "length (rr_urls rr) < 2 ^ 64" "\<forall>u\<in>set (rr_urls rr). healthy u"
    and "unat (rr_counter rr) + n < 2 ^ 64"
  shows "next_results n healthy rr = map Inr (probed (rr_urls rr) (unat (rr_counter rr)) n)"
  using assms
  by (induction n arbitrary: rr) (simp_all add: Next_all_healthy pick_eq unat_Suc_64)

lemma mset_rotate: "mset (rotate c xs) = mset xs"
  by (metis append_take_drop_id mset_append rotate_drop_take union_commute)

lemma mset_probed_rounds:
  "mset (probed urls c (k * length urls)) = repeat_mset k (mset urls)"
  by (induction k arbitrary: c) (simp_all add: probed_add probed_round mset_rotate)

lemma image_mset_repeat: "image_mset f (repeat_mset k M) = repeat_mset k (image_mset f M)"
  by (induction k) simp_all

section \<open>Properties\<close>

text \<open>
  C23: a call to \<open>Next\<close> that is not interleaved with others returns the first healthy
  upstream of the list rotated by the counter, and reports \<open>ErrNoHealthyUpstreams\<close> exactly
  when none of the upstreams is healthy (until the 64-bit counter wraps).
\<close>
theorem Next_first_healthy_in_rotation:
  assumes "unat (rr_counter rr) + length (rr_urls rr) < 2 ^ 64"
  shows "fst (Next healthy rr) =
      (case find healthy (rotate (unat (rr_counter rr)) (rr_urls rr)) of
         Some u \<Rightarrow> Inr u | None \<Rightarrow> Inl ErrNoHealthyUpstreams) \<and>
    (fst (Next healthy rr) = Inl ErrNoHealthyUpstreams \<longleftrightarrow> \<not> list_ex healthy (rr_urls rr))"
proof -
  have "length (rr_urls rr) < 2 ^ 64" using assms by linarith
  note rot = Next_rotation [OF this assms, of healthy]
  moreover have "find healthy (rotate (unat (rr_counter rr)) (rr_urls rr)) = None
      \<longleftrightarrow> \<not> list_ex healthy (rr_urls rr)"
    by (auto simp: find_None_iff list_ex_iff)
  ultimately show ?thesis by (auto split: option.splits)
qed

theorem Next_first_healthy_in_rotation_witness:
  "fst (Next (\<lambda>u. u \<noteq> ''b'') \<lparr>rr_urls = [''a'', ''b'', ''c''], rr_counter = 4\<rparr>) = Inr ''c''"
proof -
  have "rotate 4 [''a'', ''b'', ''c''] = [''b'', ''c'', ''a'']" by code_simp
  then show ?thesis
    using Next_first_healthy_in_rotation
        [of "\<lparr>rr_urls = [''a'', ''b'', ''c''], rr_counter = 4\<rparr>" "\<lambda>u. u \<noteq> ''b''"]
    by simp
qed



section \<open>Properties of concurrent calls\<close>

lemma rr_reachable_returned:
  assumes "rr_reachable healthy urls s" "urls \<noteq> []" "length urls < 2 ^ 64"
    and "snd s g = Returned (Inr u)"
  shows "u \<in> set urls \<and> healthy u"
  using assms
proof (induction arbitrary: u g rule: rr_reachable.induct)
  case (step s s')
  from step.hyps(2) show ?case
    by (rule rr_stepE) (use step pick_member [OF step.prems(1,2)] in \<open>auto split: if_splits\<close>)
qed simp

lemma rr_reachable_trying:
  assumes "rr_reachable healthy urls s" "urls \<noteq> []" "length urls < 2 ^ 64"
    and "\<forall>u\<in>set urls. healthy u"
  shows "snd s g = Trying (length urls) \<or> (\<exists>u. snd s g = Returned (Inr u))"
  using assms
proof (induction arbitrary: g rule: rr_reachable.induct)
  case (step s s')
  from step.hyps(2) show ?case
  proof (rule rr_stepE)
    fix gs h n c
    assume "s = (c, gs)" "gs h = Trying (Suc n)"
      "s' = (c + 1, gs(h := if healthy (pick urls c) then Returned (Inr (pick urls c)) else Trying n))"
    then show ?thesis
      using step.IH [OF step.prems, of g] step.prems(3) pick_member [OF step.prems(1,2), of c]
      by auto
  next
    fix gs h c
    assume "s = (c, gs)" "gs h = Trying 0"
    then show ?thesis using step.IH [OF step.prems, of h] step.prems(1) by auto
  qed
qed simp

text \<open>
  C17: however concurrent calls interleave, an upstream that \<open>Next\<close> returns is a configured
  and healthy one; and when every upstream is healthy no call ever fails.
\<close>
theorem Next_concurrent_safe:
  assumes "rr_reachable healthy urls s" and "urls \<noteq> []" and "length urls < 2 ^ 64"
  shows "(\<forall>g u. snd s g = Returned (Inr u) \<longrightarrow> u \<in> set urls \<and> healthy u) \<and>
         (list_all healthy urls \<longrightarrow> (\<forall>g. snd s g \<noteq> Returned (Inl ErrNoHealthyUpstreams)))"
proof (intro conjI allI impI)
  fix g u assume "snd s g = Returned (Inr u)"
  then show "u \<in> set urls" "healthy u"
    using rr_reachable_returned [OF assms] by blast+
next
  fix g assume "list_all healthy urls"
  then have "snd s g = Trying (length urls) \<or> (\<exists>u. snd s g = Returned (Inr u))"
    using rr_reachable_trying [OF assms] by (simp add: list_all_iff)
  then show "snd s g \<noteq> Returned (Inl ErrNoHealthyUpstreams)" by auto
qed

theorem Next_concurrent_safe_witness:
  "let gs = (\<lambda>_::nat. Trying 1)(0 := Returned (Inr ''a''))
   in rr_reachable (\<lambda>u. u = ''a'') [''a''] (1, gs) \<and>
      (\<forall>g. gs g \<noteq> Returned (Inl ErrNoHealthyUpstreams))"
proof -
  let ?gs = "(\<lambda>_::nat. Trying 1)(0 := Returned (Inr ''a''))"
  have "rr_reachable (\<lambda>u. u = ''a'') [''a''] (1, ?gs)"
    using rr_reachable.step [OF rr_reachable.start [of "\<lambda>u. u = ''a''" "[''a'']" 0]
        rr_step.draw [of "\<lambda>_. Trying (length [''a''])" 0 0]]
    by (simp add: pick_def)
  with Next_concurrent_safe [OF this] show ?thesis by (simp add: Let_def)
qed

text \<open>
  C35: the converse fails under concurrency. With upstreams a (healthy) and b (down), two
  concurrent calls can share the counter so that one of them draws b twice and reports
  \<open>ErrNoHealthyUpstreams\<close> although a is healthy, and is even returned to the other call.
\<close>
theorem Next_concurrent_spurious_error:
  "\<exists>s. rr_reachable (\<lambda>u. u = ''a'') [''a'', ''b''] s \<and>
       snd s 0 = Returned (Inl ErrNoHealthyUpstreams) \<and> snd s 1 = Returned (Inr ''a'')"
proof -
  let ?h = "\<lambda>u. u = ''a''" and ?us = "[''a'', ''b'']"
  let ?gs = "\<lambda>_::nat. Trying 2"
  have p: "pick ?us 1 = ''b''" "pick ?us 2 = ''a''" "pick ?us 3 = ''b''"
    by (simp_all add: pick_def)
  have 0: "rr_reachable ?h ?us (1, ?gs)"
    using rr_reachable.start [of ?h ?us 1] by (simp add: numeral_2_eq_2)
  have 1: "rr_reachable ?h ?us (2, ?gs(0 := Trying 1))"
    using rr_reachable.step [OF 0 rr_step.draw [of ?gs 0 1]] p by simp
  have 2: "rr_reachable ?h ?us (3, ?gs(0 := Trying 1, 1 := Returned (Inr ''a'')))"
    using rr_reachable.step [OF 1 rr_step.draw [of "?gs(0 := Trying 1)" 1 1]] p by simp
  have 3: "rr_reachable ?h ?us (4, ?gs(0 := Trying 0, 1 := Returned (Inr ''a'')))"
    using rr_reachable.step [OF 2 rr_step.draw [of _ 0 0]] p
    by (simp add: fun_upd_twist)
  show ?thesis
    using rr_reachable.step [OF 3 rr_step.give_up [of _ 0]] by force
qed

end
