(* ===== verification/Proxy.thy ===== *)
theory Proxy
  imports Circuit_Breaker Load_Balancer Go_Url Middleware
begin

text \<open>
  \<^verbatim>\<open>internal/proxy/proxy.go\<close> and \<^verbatim>\<open>rewrite.go\<close>, with the parts of Go's
  \<^verbatim>\<open>httputil.ReverseProxy\<close> they run in: the hop-by-hop headers, the forwarding headers, the
  cleaned query, the order of the callbacks, and the abort when copying the body fails.

  The state is the load balancer and the breakers, in front of the state \<open>'w\<close> of the outside
  world. What the proxy asks of the world is the record \<open>proxy_env\<close>: the health of an
  upstream, the clock, the URL parser, the trace propagator, the transport and the logger. Not
  modelled: informational 1xx responses, trailers and the connection settings of the
  transport. A response 101 cannot be honoured, since the gateway's response writers hide the
  connection, so \<^verbatim>\<open>ReverseProxy\<close> reports an error for it.
\<close>

section \<open>Requests, responses and errors\<close>

record out_request =
  out_req :: request
  out_Scheme :: string
  out_URLHost :: string

text \<open>What \<^verbatim>\<open>errors.Is\<close> and \<^verbatim>\<open>errors.AsType\<close> find out about an error.\<close>

record transport_error =
  er_MaxBytes :: bool
  er_DeadlineExceeded :: bool
  er_netTimeout :: bool

definition other_error :: transport_error where
  "other_error = \<lparr>er_MaxBytes = False, er_DeadlineExceeded = False, er_netTimeout = False\<rparr>"

record response =
  rs_StatusCode :: int
  rs_Header :: header
  rs_chunks :: "string list"
  rs_copyFails :: bool

record 'w proxy_env =
  pe_IsHealthy :: "'w \<Rightarrow> string \<Rightarrow> bool"
  pe_now :: "'w \<Rightarrow> time"
  pe_Parse :: "string \<Rightarrow> (string \<times> string) option"
  pe_Inject :: "req_ctx \<Rightarrow> header \<Rightarrow> header"
  pe_RoundTrip :: "out_request \<Rightarrow> 'w \<Rightarrow> (transport_error + response) \<times> 'w"
  pe_logError :: "transport_error \<Rightarrow> 'w \<Rightarrow> 'w"

record proxy_handler =
  ph_lb :: round_robin
  ph_breakers :: "string \<rightharpoonup> breaker"

definition newTargetContext :: "req_ctx \<Rightarrow> string \<Rightarrow> req_ctx" where
  "newTargetContext ctx target = ctx\<lparr>ctx_target := Some target\<rparr>"

definition TargetFromContext :: "req_ctx \<Rightarrow> string option" where
  "TargetFromContext ctx = ctx_target ctx"

definition mustGetTargetFromContext :: "req_ctx \<Rightarrow> panic + string" where
  "mustGetTargetFromContext ctx =
     (case TargetFromContext ctx of
        None \<Rightarrow> Inl (PanicMsg ''proxy: target URL not found in request context'')
      | Some target \<Rightarrow> Inr target)"

definition mustGetBreaker :: "proxy_handler \<Rightarrow> string \<Rightarrow> panic + breaker" where
  "mustGetBreaker p upstream =
     (case ph_breakers p upstream of
        None \<Rightarrow> Inl (PanicMsg ''proxy: circuit breaker not found'')
      | Some b \<Rightarrow> Inr b)"

definition mustParseURL :: "'w proxy_env \<Rightarrow> string \<Rightarrow> panic + string \<times> string" where
  "mustParseURL env raw =
     (case pe_Parse env raw of
        None \<Rightarrow> Inl (PanicMsg (''proxy: invalid upstream URL: '' @ raw))
      | Some u \<Rightarrow> Inr u)"

definition classifyProxyError :: "transport_error \<Rightarrow> int \<times> string" where
  "classifyProxyError err =
     (if er_DeadlineExceeded err then (504, ''upstream timeout'')
      else if er_netTimeout err then (504, ''upstream timeout'')
      else (502, ''upstream unavailable''))"

section \<open>Headers of the outgoing request\<close>

definition trim_chars :: "char list \<Rightarrow> string \<Rightarrow> string" where
  "trim_chars cs s = rev (dropWhile (\<lambda>c. c \<in> set cs) (rev (dropWhile (\<lambda>c. c \<in> set cs) s)))"

definition values_contain_token :: "string list \<Rightarrow> string \<Rightarrow> bool" where
  "values_contain_token vs tok =
     list_ex (\<lambda>v. list_ex (\<lambda>p. EqualFold (trim_chars [CHR '' '', CHR 0x09] p) tok) (SplitSeq (CHR '','') v)) vs"

definition upgradeType :: "header \<Rightarrow> string" where
  "upgradeType h =
     (if \<not> values_contain_token (h ''Connection'') ''Upgrade'' then [] else header_Get h ''Upgrade'')"

definition ascii_print :: "string \<Rightarrow> bool" where
  "ascii_print s = list_all (\<lambda>c. let n = of_char c :: nat in 32 \<le> n \<and> n \<le> 126) s"

definition hopHeaders :: "string list" where
  "hopHeaders =
     [''Connection'', ''Proxy-Connection'', ''Keep-Alive'', ''Proxy-Authenticate'',
      ''Proxy-Authorization'', ''Te'', ''Trailer'', ''Transfer-Encoding'', ''Upgrade'']"

definition connection_tokens :: "header \<Rightarrow> string list" where
  "connection_tokens h =
     filter (\<lambda>t. t \<noteq> [])
       (map (trim_chars [CHR '' '', CHR 0x09, CHR 0x0A, CHR 0x0D])
          (concat (map (SplitSeq (CHR '','')) (h ''Connection''))))"

definition removeHopByHopHeaders :: "header \<Rightarrow> header" where
  "removeHopByHopHeaders h = fold header_Del (connection_tokens h @ hopHeaders) h"

fun query_well_formed :: "string \<Rightarrow> bool" where
  "query_well_formed [] = True"
| "query_well_formed (c # cs) =
     (if c = CHR '';'' then False
      else if c = CHR ''%'' then
        (case cs of
           a # b # rest \<Rightarrow> unhex a \<noteq> None \<and> unhex b \<noteq> None \<and> query_well_formed rest
         | _ \<Rightarrow> False)
      else query_well_formed cs)"

definition cleanQueryParams :: "string \<Rightarrow> string" where
  "cleanQueryParams s = (if query_well_formed s then s else values_Encode (ParseQuery s))"

text \<open>\<^verbatim>\<open>ProxyRequest.SetXForwarded\<close>; the gateway's server does not speak TLS.\<close>

definition SetXForwarded :: "request \<Rightarrow> header \<Rightarrow> header" where
  "SetXForwarded inr h =
     (let h = (case SplitHostPort (r_RemoteAddr inr) of
                 Some (clientIP, _) \<Rightarrow>
                   header_Set ''X-Forwarded-For''
                     (case h ''X-Forwarded-For'' of
                        [] \<Rightarrow> clientIP | prior \<Rightarrow> Join prior '', '' @ '', '' @ clientIP) h
               | None \<Rightarrow> header_Del ''X-Forwarded-For'' h);
          h = header_Set ''X-Forwarded-Host'' (r_Host inr) h
      in header_Set ''X-Forwarded-Proto'' ''http'' h)"

definition injectTraceContext :: "'w proxy_env \<Rightarrow> req_ctx \<Rightarrow> header \<Rightarrow> header" where
  "injectTraceContext env ctx h = pe_Inject env ctx h"

definition injectUserHeaders :: "req_ctx \<Rightarrow> header \<Rightarrow> header" where
  "injectUserHeaders ctx h =
     (case ClaimsFromContext ctx of
        None \<Rightarrow> h
      | Some claims \<Rightarrow>
          header_Set ''X-Roles'' (Join (Roles claims) '','') (header_Set ''X-User'' (Subject claims) h))"

text \<open>The callback \<open>Rewrite\<close>: \<open>inr\<close> is the incoming request, \<open>out\<close> the outgoing one.\<close>

definition Rewrite :: "'w proxy_env \<Rightarrow> request \<Rightarrow> request \<Rightarrow> panic + out_request" where
  "Rewrite env inr out =
     (case mustGetTargetFromContext (r_ctx out) of
        Inl p \<Rightarrow> Inl p
      | Inr target \<Rightarrow>
          (case mustParseURL env target of
             Inl p \<Rightarrow> Inl p
           | Inr (scheme, host) \<Rightarrow>
               let h = SetXForwarded inr (r_Header out);
                   h = injectTraceContext env (r_ctx out) h;
                   h = injectUserHeaders (r_ctx out) h
               in Inr \<lparr>out_req = out\<lparr>r_Host := host, r_Header := h\<rparr>,
                       out_Scheme = scheme, out_URLHost = host\<rparr>))"

section \<open>Callbacks that record the outcome\<close>

definition set_breaker :: "string \<Rightarrow> breaker \<Rightarrow> proxy_handler \<Rightarrow> proxy_handler" where
  "set_breaker u b p = p\<lparr>ph_breakers := (ph_breakers p)(u \<mapsto> b)\<rparr>"

definition ModifyResponse ::
  "'w proxy_env \<Rightarrow> req_ctx \<Rightarrow> int \<Rightarrow> proxy_handler \<times> 'w \<Rightarrow> panic + proxy_handler \<times> 'w" where
  "ModifyResponse env ctx status pw =
     (case pw of
        (p, w) \<Rightarrow>
          (case mustGetTargetFromContext ctx of
             Inl v \<Rightarrow> Inl v
           | Inr target \<Rightarrow>
               (case mustGetBreaker p target of
                  Inl v \<Rightarrow> Inl v
                | Inr b \<Rightarrow>
                    if status \<ge> 500 then Inr (set_breaker target (RecordFailure (pe_now env w) b) p, w)
                    else Inr (set_breaker target (RecordSuccess b) p, w))))"

definition ErrorHandler ::
  "'w proxy_env \<Rightarrow> req_ctx \<Rightarrow> transport_error \<Rightarrow> proxy_handler \<times> 'w \<Rightarrow> reply \<times> proxy_handler \<times> 'w" where
  "ErrorHandler env ctx err pw =
     (case pw of
        (p, w) \<Rightarrow>
          if er_MaxBytes err then
            ((writeJSON 413 [(''error'', ''request body too large'')], Returned_ok), (p, w))
          else
            (case mustGetTargetFromContext ctx of
               Inl v \<Rightarrow> (([], Panicked v), (p, w))
             | Inr target \<Rightarrow>
                 (case mustGetBreaker p target of
                    Inl v \<Rightarrow> (([], Panicked v), (p, w))
                  | Inr b \<Rightarrow>
                      let p = set_breaker target (RecordFailure (pe_now env w) b) p;
                          w = pe_logError env err w;
                          (status, msg) = classifyProxyError err
                      in ((writeJSON status [(''error'', msg)], Returned_ok), (p, w)))))"

section \<open>The reverse proxy and the handler\<close>

definition outgoing :: "request \<Rightarrow> request" where
  "outgoing r =
     (let up = upgradeType (r_Header r);
          h = removeHopByHopHeaders (r_Header r);
          h = (if values_contain_token (r_Header r ''Te'') ''trailers'' then header_Set ''Te'' ''trailers'' h else h);
          h = (if up \<noteq> [] then header_Set ''Upgrade'' up (header_Set ''Connection'' ''Upgrade'' h) else h);
          h = fold header_Del [''Forwarded'', ''X-Forwarded-For'', ''X-Forwarded-Host'', ''X-Forwarded-Proto''] h
      in r\<lparr>r_Header := h, r_RawQuery := cleanQueryParams (r_RawQuery r),
           r_Body := (if r_ContentLength r = 0 then [] else r_Body r)\<rparr>)"

definition default_user_agent :: "out_request \<Rightarrow> out_request" where
  "default_user_agent o' =
     (if r_Header (out_req o') ''User-Agent'' = []
      then o'\<lparr>out_req := (out_req o')\<lparr>r_Header := header_Set ''User-Agent'' [] (r_Header (out_req o'))\<rparr>\<rparr>
      else o')"

definition reverse_proxy ::
  "'w proxy_env \<Rightarrow> request \<Rightarrow> proxy_handler \<times> 'w \<Rightarrow> reply \<times> proxy_handler \<times> 'w" where
  "reverse_proxy env r pw =
     (case pw of
        (p, w) \<Rightarrow>
          if \<not> ascii_print (upgradeType (r_Header r)) then ErrorHandler env (r_ctx r) other_error (p, w)
          else
            (case Rewrite env r (outgoing r) of
               Inl v \<Rightarrow> (([], Panicked v), (p, w))
             | Inr out \<Rightarrow>
                 (case pe_RoundTrip env (default_user_agent out) w of
                    (Inl err, w) \<Rightarrow> ErrorHandler env (r_ctx r) err (p, w)
                  | (Inr resp, w) \<Rightarrow>
                      (case ModifyResponse env (r_ctx r) (rs_StatusCode resp) (p, w) of
                         Inl v \<Rightarrow> (([], Panicked v), (p, w))
                       | Inr pw \<Rightarrow>
                           if rs_StatusCode resp = 101 then ErrorHandler env (r_ctx r) other_error pw
                           else
                             ((HeaderAddAll (removeHopByHopHeaders (rs_Header resp)) #
                               WriteHeader (rs_StatusCode resp) # map Write (rs_chunks resp),
                               if rs_copyFails resp then Panicked ErrAbortHandler else Returned_ok), pw)))))"

definition proxy_ServeHTTP :: "'w proxy_env \<Rightarrow> (proxy_handler \<times> 'w) handler" where
  "proxy_ServeHTTP env h r pw =
     (case pw of
        (p, w) \<Rightarrow>
          (case Next (pe_IsHealthy env w) (ph_lb p) of
             (Inl err, lb) \<Rightarrow>
               ((writeJSON 503 [(''error'', ''no healthy upstreams'')], Returned_ok), (p\<lparr>ph_lb := lb\<rparr>, w))
           | (Inr upstream, lb) \<Rightarrow>
               let p = p\<lparr>ph_lb := lb\<rparr>
               in case mustGetBreaker p upstream of
                    Inl v \<Rightarrow> (([], Panicked v), (p, w))
                  | Inr breaker \<Rightarrow>
                      (case breaker_Allow (pe_now env w) breaker of
                         (Some err, b) \<Rightarrow>
                           ((writeJSON 503 [(''error'', ''circuit breaker is open''), (''upstream'', upstream)],
                             Returned_ok), (set_breaker upstream b p, w))
                       | (None, b) \<Rightarrow>
                           reverse_proxy env (r\<lparr>r_ctx := newTargetContext (r_ctx r) upstream\<rparr>)
                             (set_breaker upstream b p, w))))"

definition NewHandler :: "round_robin \<Rightarrow> (string \<rightharpoonup> breaker) \<Rightarrow> proxy_handler" where
  "NewHandler lb breakers = \<lparr>ph_lb = lb, ph_breakers = breakers\<rparr>"

section \<open>Laws\<close>

text \<open>What every state of a proxy for the upstreams \<open>urls\<close> satisfies.\<close>

definition proxy_inv :: "string list \<Rightarrow> proxy_handler \<Rightarrow> bool" where
  "proxy_inv urls p \<longleftrightarrow>
     rr_urls (ph_lb p) = urls \<and> length urls < 2 ^ 64 \<and> set urls \<subseteq> dom (ph_breakers p)"

lemma set_breaker_fields [simp]:
  "ph_lb (set_breaker u b p) = ph_lb p"
  "ph_breakers (set_breaker u b p) = (ph_breakers p)(u \<mapsto> b)"
  by (simp_all add: set_breaker_def)

lemma set_breaker_twice [simp]: "set_breaker u b' (set_breaker u b p) = set_breaker u b' p"
  by (simp add: set_breaker_def)

lemma proxy_inv_set_breaker [simp]: "proxy_inv urls p \<Longrightarrow> proxy_inv urls (set_breaker u b p)"
  by (auto simp: proxy_inv_def)

lemma ErrorHandler_known:
  assumes "ctx_target ctx = Some u" "ph_breakers p u = Some b"
  shows "ErrorHandler env ctx err (p, w) =
    (if er_MaxBytes err
     then ((writeJSON 413 [(''error'', ''request body too large'')], Returned_ok), (p, w))
     else ((writeJSON (fst (classifyProxyError err)) [(''error'', snd (classifyProxyError err))], Returned_ok),
           (set_breaker u (RecordFailure (pe_now env w) b) p, pe_logError env err w)))"
  using assms
  by (simp add: ErrorHandler_def mustGetTargetFromContext_def TargetFromContext_def mustGetBreaker_def
      case_prod_beta)

lemma ModifyResponse_known:
  assumes "ctx_target ctx = Some u" "ph_breakers p u = Some b"
  shows "ModifyResponse env ctx st (p, w) =
    Inr (set_breaker u (if st \<ge> 500 then RecordFailure (pe_now env w) b else RecordSuccess b) p, w)"
  using assms
  by (simp add: ModifyResponse_def mustGetTargetFromContext_def TargetFromContext_def mustGetBreaker_def)

lemma Rewrite_known:
  assumes "ctx_target (r_ctx out) = Some u" "pe_Parse env u = Some (scheme, host)"
  shows "Rewrite env inr out =
    Inr \<lparr>out_req = out\<lparr>r_Host := host,
           r_Header := injectUserHeaders (r_ctx out)
             (pe_Inject env (r_ctx out) (SetXForwarded inr (r_Header out)))\<rparr>,
         out_Scheme = scheme, out_URLHost = host\<rparr>"
  using assms
  by (simp add: Rewrite_def mustGetTargetFromContext_def TargetFromContext_def mustParseURL_def
      injectTraceContext_def)

lemma outgoing_ctx [simp]: "r_ctx (outgoing r) = r_ctx r"
  by (simp add: outgoing_def Let_def)

text \<open>The request an admitted request becomes, the answer it gets, and what the breaker learns.\<close>

definition upstream_request :: "'w proxy_env \<Rightarrow> string \<Rightarrow> string \<times> string \<Rightarrow> request \<Rightarrow> out_request" where
  "upstream_request env u loc r =
     (let r = r\<lparr>r_ctx := newTargetContext (r_ctx r) u\<rparr>
      in default_user_agent
           \<lparr>out_req = (outgoing r)\<lparr>r_Host := snd loc,
              r_Header := injectUserHeaders (r_ctx r)
                (pe_Inject env (r_ctx r) (SetXForwarded r (r_Header (outgoing r))))\<rparr>,
            out_Scheme = fst loc, out_URLHost = snd loc\<rparr>)"

fun proxied_reply :: "transport_error + response \<Rightarrow> reply" where
  "proxied_reply (Inl err) =
     (if er_MaxBytes err then (writeJSON 413 [(''error'', ''request body too large'')], Returned_ok)
      else (writeJSON (fst (classifyProxyError err)) [(''error'', snd (classifyProxyError err))], Returned_ok))"
| "proxied_reply (Inr resp) =
     (if rs_StatusCode resp = 101 then (writeJSON 502 [(''error'', ''upstream unavailable'')], Returned_ok)
      else (HeaderAddAll (removeHopByHopHeaders (rs_Header resp)) #
            WriteHeader (rs_StatusCode resp) # map Write (rs_chunks resp),
            if rs_copyFails resp then Panicked ErrAbortHandler else Returned_ok))"

fun recorded :: "time \<Rightarrow> transport_error + response \<Rightarrow> breaker \<Rightarrow> breaker" where
  "recorded t (Inl err) b = (if er_MaxBytes err then b else RecordFailure t b)"
| "recorded t (Inr resp) b =
     (if rs_StatusCode resp = 101 then RecordFailure t (RecordSuccess b)
      else if rs_StatusCode resp \<ge> 500 then RecordFailure t b else RecordSuccess b)"

text \<open>The world after the request: an error that reaches the error handler is logged.\<close>

fun logged :: "'w proxy_env \<Rightarrow> transport_error + response \<Rightarrow> 'w \<Rightarrow> 'w" where
  "logged env (Inl err) w = (if er_MaxBytes err then w else pe_logError env err w)"
| "logged env (Inr resp) w = (if rs_StatusCode resp = 101 then pe_logError env other_error w else w)"

lemma reverse_proxy_known:
  assumes "ph_breakers p u = Some b" "ascii_print (upgradeType (r_Header r))"
    and "pe_Parse env u = Some loc" "pe_RoundTrip env (upstream_request env u loc r) w = (res, w')"
  shows "reverse_proxy env (r\<lparr>r_ctx := newTargetContext (r_ctx r) u\<rparr>) (p, w) =
    (proxied_reply res, (set_breaker u (recorded (pe_now env w') res b) p, logged env res w'))"
proof -
  define r' where "r' = r\<lparr>r_ctx := newTargetContext (r_ctx r) u\<rparr>"
  have ctx: "ctx_target (r_ctx r') = Some u" by (simp add: r'_def newTargetContext_def)
  obtain scheme host where loc: "loc = (scheme, host)" by fastforce
  have rw: "Rewrite env r' (outgoing r') = Inr out \<Longrightarrow>
      default_user_agent out = upstream_request env u loc r" for out
    using Rewrite_known [of "outgoing r'" u env scheme host r'] ctx assms(3) loc
    by (auto simp: upstream_request_def r'_def Let_def)
  obtain out where out: "Rewrite env r' (outgoing r') = Inr out"
    using Rewrite_known [of "outgoing r'" u env scheme host r'] ctx assms(3) loc by simp
  have print: "ascii_print (upgradeType (r_Header r'))" using assms(2) by (simp add: r'_def)
  have trip: "pe_RoundTrip env (default_user_agent out) w = (res, w')" using rw [OF out] assms(4) by simp
  have same: "set_breaker u b p = p" if "ph_breakers p u = Some b"
    using that by (cases p) (simp add: set_breaker_def fun_upd_idem)
  show ?thesis
  proof (cases res)
    case (Inl err)
    then show ?thesis
      using print out trip same [OF assms(1)]
      by (auto simp: reverse_proxy_def r'_def [symmetric] ErrorHandler_known [OF ctx assms(1)])
  next
    case (Inr resp)
    have "RecordSuccess b = (if rs_StatusCode resp \<ge> 500 then RecordFailure (pe_now env w') b else RecordSuccess b)"
      if "rs_StatusCode resp = 101"
      using that by simp
    then show ?thesis
      using print out trip Inr
      by (auto simp: reverse_proxy_def r'_def [symmetric] ModifyResponse_known [OF ctx assms(1)]
          ErrorHandler_known [OF ctx] other_error_def classifyProxyError_def)
  qed
qed

text \<open>What a request can do to the world: at most one round trip, and one line in the log.\<close>

lemma ErrorHandler_world:
  "ErrorHandler env ctx err (p, w) = (reply, (p', w')) \<Longrightarrow> w' = w \<or> w' = pe_logError env err w"
  by (auto simp: ErrorHandler_def Let_def case_prod_beta split: if_splits sum.splits)

lemma ModifyResponse_world: "ModifyResponse env ctx st (p, w) = Inr (p', w') \<Longrightarrow> w' = w"
  by (auto simp: ModifyResponse_def split: if_splits sum.splits)

lemma reverse_proxy_after:
  assumes "ascii_print (upgradeType (r_Header r))" "Rewrite env r (outgoing r) = Inr out"
    and "pe_RoundTrip env (default_user_agent out) w = (res, w1)"
    and "reverse_proxy env r (p, w) = (reply, (p', w'))"
  shows "w' = w1 \<or> (\<exists>err. w' = pe_logError env err w1)"
proof (cases res)
  case (Inl err)
  with assms show ?thesis
    using ErrorHandler_world [of env "r_ctx r" err p w1 reply p' w'] by (auto simp: reverse_proxy_def)
next
  case resp: (Inr resp)
  show ?thesis
  proof (cases "ModifyResponse env (r_ctx r) (rs_StatusCode resp) (p, w1)")
    case (Inl v)
    with assms resp show ?thesis by (auto simp: reverse_proxy_def)
  next
    case mod: (Inr pw)
    obtain p2 w2 where pw: "pw = (p2, w2)" by fastforce
    from mod pw have "w2 = w1" by (simp add: ModifyResponse_world)
    with assms resp mod pw show ?thesis
      using ErrorHandler_world [of env "r_ctx r" other_error p2 w1 reply p' w']
      by (auto simp: reverse_proxy_def split: if_splits)
  qed
qed

lemma reverse_proxy_world:
  assumes "reverse_proxy env (r\<lparr>r_ctx := newTargetContext (r_ctx r) u\<rparr>) (p, w) = (reply, (p', w'))"
  shows "\<exists>w1. (w1 = w \<or> (\<exists>loc res. pe_Parse env u = Some loc \<and>
      pe_RoundTrip env (upstream_request env u loc r) w = (res, w1))) \<and>
    (w' = w1 \<or> (\<exists>err. w' = pe_logError env err w1))"
proof -
  define r' where "r' = r\<lparr>r_ctx := newTargetContext (r_ctx r) u\<rparr>"
  have ctx: "ctx_target (r_ctx r') = Some u" by (simp add: r'_def newTargetContext_def)
  note eq = assms [folded r'_def]
  show ?thesis
  proof (cases "ascii_print (upgradeType (r_Header r'))")
    case False
    with eq ErrorHandler_world [of env "r_ctx r'" other_error p w reply p' w'] show ?thesis
      by (auto simp: reverse_proxy_def)
  next
    case print: True
    show ?thesis
    proof (cases "Rewrite env r' (outgoing r')")
      case (Inl v)
      with eq print show ?thesis by (auto simp: reverse_proxy_def)
    next
      case (Inr out)
      obtain loc where loc: "pe_Parse env u = Some loc"
        using Inr ctx
        by (auto simp: Rewrite_def mustGetTargetFromContext_def TargetFromContext_def mustParseURL_def
            split: sum.splits option.splits)
      then have out: "default_user_agent out = upstream_request env u loc r"
        using Rewrite_known [of "outgoing r'" u env "fst loc" "snd loc" r'] ctx Inr
        by (auto simp: upstream_request_def r'_def Let_def)
      obtain res w1 where trip: "pe_RoundTrip env (upstream_request env u loc r) w = (res, w1)" by fastforce
      from reverse_proxy_after [OF print Inr trip [folded out] eq]
      have "w' = w1 \<or> (\<exists>err. w' = pe_logError env err w1)" .
      with trip loc show ?thesis by blast
    qed
  qed
qed

lemma proxy_world:
  assumes "proxy_ServeHTTP env h r (p, w) = (reply, (p', w'))" and "proxy_inv urls p"
  shows "\<exists>w1. (w1 = w \<or> (\<exists>u loc res. u \<in> set urls \<and> pe_Parse env u = Some loc \<and>
      pe_RoundTrip env (upstream_request env u loc r) w = (res, w1))) \<and>
    (w' = w1 \<or> (\<exists>err. w' = pe_logError env err w1))"
proof -
  obtain res lb where nx: "Next (pe_IsHealthy env w) (ph_lb p) = (res, lb)" by fastforce
  let ?p = "p\<lparr>ph_lb := lb\<rparr>"
  show ?thesis
  proof (cases res)
    case (Inl err)
    with nx assms(1) show ?thesis by (auto simp: proxy_ServeHTTP_def)
  next
    case (Inr u)
    have u: "u \<in> set urls" using Next_result [of "ph_lb p" "pe_IsHealthy env w" u] nx Inr assms(2) by (simp add: proxy_inv_def)
    show ?thesis
    proof (cases "mustGetBreaker ?p u")
      case (Inl v)
      with nx Inr assms(1) show ?thesis by (auto simp: proxy_ServeHTTP_def)
    next
      case b: (Inr b)
      obtain err b' where al: "breaker_Allow (pe_now env w) b = (err, b')" by fastforce
      show ?thesis
      proof (cases err)
        case None
        with nx Inr b al assms(1) have "reverse_proxy env (r\<lparr>r_ctx := newTargetContext (r_ctx r) u\<rparr>)
            (set_breaker u b' ?p, w) = (reply, (p', w'))" by (simp add: proxy_ServeHTTP_def)
        from reverse_proxy_world [OF this] u show ?thesis by blast
      next
        case (Some e)
        with nx Inr b al assms(1) show ?thesis by (auto simp: proxy_ServeHTTP_def)
      qed
    qed
  qed
qed

lemma reverse_proxy_bad_upgrade:
  assumes "ph_breakers p u = Some b" "\<not> ascii_print (upgradeType (r_Header r))"
  shows "reverse_proxy env (r\<lparr>r_ctx := newTargetContext (r_ctx r) u\<rparr>) (p, w) =
    ((writeJSON 502 [(''error'', ''upstream unavailable'')], Returned_ok),
     (set_breaker u (RecordFailure (pe_now env w) b) p, pe_logError env other_error w))"
  using assms
  by (simp add: reverse_proxy_def ErrorHandler_known [of _ u p b] newTargetContext_def other_error_def
      classifyProxyError_def)

lemma proxy_inv_breaker:
  assumes "proxy_inv urls p" and "fst (Next healthy (ph_lb p)) = Inr u"
  obtains b where "ph_breakers p u = Some b"
proof -
  have "u \<in> dom (ph_breakers p)"
    using rr.next_in_range [of "ph_lb p" "dom (ph_breakers p)" healthy u] assms
    by (auto simp: proxy_inv_def)
  then show thesis using that by blast
qed

text \<open>The three ways a request can go once an upstream was chosen or not.\<close>

lemma proxy_no_upstream:
  assumes "Next (pe_IsHealthy env w) (ph_lb p) = (Inl err, lb)"
  shows "proxy_ServeHTTP env h r (p, w) =
    ((writeJSON 503 [(''error'', ''no healthy upstreams'')], Returned_ok), (p\<lparr>ph_lb := lb\<rparr>, w))"
  using assms by (simp add: proxy_ServeHTTP_def)

lemma proxy_rejects:
  assumes "Next (pe_IsHealthy env w) (ph_lb p) = (Inr u, lb)" "ph_breakers p u = Some b"
    and "breaker_Allow (pe_now env w) b = (Some err, b')"
  shows "proxy_ServeHTTP env h r (p, w) =
    ((writeJSON 503 [(''error'', ''circuit breaker is open''), (''upstream'', u)], Returned_ok),
     (set_breaker u b' (p\<lparr>ph_lb := lb\<rparr>), w))"
  using assms by (simp add: proxy_ServeHTTP_def mustGetBreaker_def)

lemma proxy_admits:
  assumes "Next (pe_IsHealthy env w) (ph_lb p) = (Inr u, lb)" "ph_breakers p u = Some b"
    and "breaker_Allow (pe_now env w) b = (None, b')"
  shows "proxy_ServeHTTP env h r (p, w) =
    reverse_proxy env (r\<lparr>r_ctx := newTargetContext (r_ctx r) u\<rparr>) (set_breaker u b' (p\<lparr>ph_lb := lb\<rparr>), w)"
  using assms by (simp add: proxy_ServeHTTP_def mustGetBreaker_def)

section \<open>Properties\<close>

lemma proxy_forwards:
  assumes "Next (pe_IsHealthy env w) (ph_lb p) = (Inr u, lb)"
    and "ph_breakers p u = Some b" and "breaker_Allow (pe_now env w) b = (None, b')"
    and "ascii_print (upgradeType (r_Header r))" and "pe_Parse env u = Some loc"
    and "pe_RoundTrip env (upstream_request env u loc r) w = (res, w')"
  shows "proxy_ServeHTTP env h r (p, w) =
    (proxied_reply res,
     (p\<lparr>ph_lb := lb, ph_breakers := (ph_breakers p)(u \<mapsto> recorded (pe_now env w') res b')\<rparr>, logged env res w'))"
proof -
  have known: "ph_breakers (set_breaker u b' (p\<lparr>ph_lb := lb\<rparr>)) u = Some b'" by simp
  have "reverse_proxy env (r\<lparr>r_ctx := newTargetContext (r_ctx r) u\<rparr>) (set_breaker u b' (p\<lparr>ph_lb := lb\<rparr>), w) =
    (proxied_reply res, (set_breaker u (recorded (pe_now env w') res b') (set_breaker u b' (p\<lparr>ph_lb := lb\<rparr>)),
       logged env res w'))"
    by (rule reverse_proxy_known [OF known assms(4,5,6)])
  then show ?thesis
    using proxy_admits [OF assms(1-3), of h r] by (simp add: set_breaker_def)
qed


definition demo_env :: "(transport_error + response) \<Rightarrow> unit proxy_env" where
  "demo_env res = \<lparr>pe_IsHealthy = (\<lambda>_ _. True), pe_now = (\<lambda>_. 100), pe_Parse = (\<lambda>_. Some (''http'', ''a:1'')),
     pe_Inject = (\<lambda>_ h. h), pe_RoundTrip = (\<lambda>_ w. (res, w)), pe_logError = (\<lambda>_ w. w)\<rparr>"

definition demo_proxy :: "breaker \<Rightarrow> proxy_handler" where
  "demo_proxy b = NewHandler (NewRoundRobin [''http://a:1'']) [''http://a:1'' \<mapsto> b]"

lemma demo_Next:
  "Next (\<lambda>_. True) (ph_lb (demo_proxy b)) =
     (Inr ''http://a:1'', \<lparr>rr_urls = [''http://a:1''], rr_counter = 1\<rparr>)"
  by (simp add: demo_proxy_def NewHandler_def NewRoundRobin_def Next_def pick_def)

lemma no_upgrade: "ascii_print (upgradeType (r_Header (simple_request m q p)))"
  by (simp add: simple_request_def upgradeType_def values_contain_token_def empty_header_def ascii_print_def)


text \<open>
  The proxy does not panic on its own account. With a breaker for every configured upstream and
  upstream URLs that parse, every request ends by returning, or by the abort that tells the
  server the upstream's body broke off; the upstreams and the set of breakers stay as configured.
\<close>

lemma proxy_keeps_inv:
  assumes "proxy_inv urls p" and "list_all (\<lambda>u. pe_Parse env u \<noteq> None) urls"
    and "proxy_ServeHTTP env h r (p, w) = ((ops, out), (p', w'))"
  shows "(out = Returned_ok \<or> out = Panicked ErrAbortHandler) \<and> proxy_inv urls p'"
proof -
  obtain next_r lb where nx: "Next (pe_IsHealthy env w) (ph_lb p) = (next_r, lb)" by fastforce
  have lb: "proxy_inv urls (p\<lparr>ph_lb := lb\<rparr>)"
    using assms(1) rr_urls_Next [of "pe_IsHealthy env w" "ph_lb p"] nx by (simp add: proxy_inv_def)
  show ?thesis
  proof (cases next_r)
    case (Inl err)
    with nx assms(3) lb show ?thesis by (auto simp: proxy_no_upstream)
  next
    case (Inr u)
    with nx obtain b where b: "ph_breakers p u = Some b"
      using proxy_inv_breaker [OF assms(1), of "pe_IsHealthy env w" u] by auto
    have "u \<in> set urls"
      using rr.next_in_range [of "ph_lb p" "set urls" "pe_IsHealthy env w" u] nx Inr assms(1)
      by (simp add: proxy_inv_def)
    then obtain loc where loc: "pe_Parse env u = Some loc" using assms(2) by (auto simp: list_all_iff)
    obtain verdict b' where allow: "breaker_Allow (pe_now env w) b = (verdict, b')" by fastforce
    show ?thesis
    proof (cases verdict)
      case (Some e)
      with nx Inr b allow assms(3) lb show ?thesis by (auto simp: proxy_rejects)
    next
      case None
      let ?p = "set_breaker u b' (p\<lparr>ph_lb := lb\<rparr>)"
      have run: "reverse_proxy env (r\<lparr>r_ctx := newTargetContext (r_ctx r) u\<rparr>) (?p, w) = ((ops, out), (p', w'))"
        using nx Inr b allow None assms(3) by (simp add: proxy_admits)
      have known: "ph_breakers ?p u = Some b'" by simp
      obtain res w1 where trip: "pe_RoundTrip env (upstream_request env u loc r) w = (res, w1)" by fastforce
      show ?thesis
      proof (cases "ascii_print (upgradeType (r_Header r))")
        case True
        from reverse_proxy_known [OF known True loc trip] run
        have "proxied_reply res = (ops, out)" "p' = set_breaker u (recorded (pe_now env w1) res b') ?p" by auto
        then show ?thesis using lb by (cases res) (auto split: if_splits)
      next
        case False
        from reverse_proxy_bad_upgrade [OF known False, of env w] run lb show ?thesis by auto
      qed
    qed
  qed
qed

lemma proxy_keys:
  "canonical_key ''X-User'' = ''X-User''" "canonical_key ''X-Roles'' = ''X-Roles''"
  "canonical_key ''X-Forwarded-For'' = ''X-Forwarded-For''"
  "canonical_key ''X-Forwarded-Host'' = ''X-Forwarded-Host''"
  "canonical_key ''X-Forwarded-Proto'' = ''X-Forwarded-Proto''"
  "canonical_key ''User-Agent'' = ''User-Agent''" "canonical_key ''Forwarded'' = ''Forwarded''"
  "canonical_key ''Proxy-Authorization'' = ''Proxy-Authorization''"
  "canonical_key ''Te'' = ''Te''" "canonical_key ''Connection'' = ''Connection''"
  "canonical_key ''Upgrade'' = ''Upgrade''"
  by code_simp+

lemma header_Del_fold: "fold header_Del ks h k = (if k \<in> canonical_key ` set ks then [] else h k)"
  by (induction ks arbitrary: h) (auto simp: header_Del_def)

lemma outgoing_forwarded:
  "k \<in> {''Forwarded'', ''X-Forwarded-For'', ''X-Forwarded-Host'', ''X-Forwarded-Proto''} \<Longrightarrow>
   r_Header (outgoing r) k = []"
  by (auto simp: outgoing_def Let_def header_Del_def proxy_keys)

lemma outgoing_proxy_authorization: "r_Header (outgoing r) ''Proxy-Authorization'' = []"
proof -
  have "removeHopByHopHeaders (r_Header r) ''Proxy-Authorization'' = []"
    by (simp add: removeHopByHopHeaders_def header_Del_fold del: fold_append)
      (simp add: hopHeaders_def proxy_keys)
  then show ?thesis
    by (simp add: outgoing_def Let_def header_Del_def header_Set_def proxy_keys)
qed

definition trace_only :: "(req_ctx \<Rightarrow> header \<Rightarrow> header) \<Rightarrow> bool" where
  "trace_only inject \<longleftrightarrow>
     (\<forall>ctx h k. k \<noteq> ''Traceparent'' \<and> k \<noteq> ''Tracestate'' \<and> k \<noteq> ''Baggage'' \<longrightarrow> inject ctx h k = h k)"

lemma upstream_identity:
  assumes "ctx_claims (r_ctx r) = Some c" and "trace_only (pe_Inject env)"
  shows "let h = r_Header (out_req (upstream_request env u loc r))
    in h ''X-User'' = [Subject c] \<and> h ''X-Roles'' = [Join (Roles c) '',''] \<and>
       h ''X-Forwarded-For'' = (case SplitHostPort (r_RemoteAddr r) of Some (ip, _) \<Rightarrow> [ip] | None \<Rightarrow> []) \<and>
       h ''X-Forwarded-Host'' = [r_Host r] \<and> h ''Proxy-Authorization'' = []"
proof -
  define r' where "r' = r\<lparr>r_ctx := newTargetContext (r_ctx r) u\<rparr>"
  define g where "g = SetXForwarded r' (r_Header (outgoing r'))"
  have inj: "pe_Inject env (r_ctx r') g k = g k"
    if "k \<in> {''X-Forwarded-For'', ''X-Forwarded-Host'', ''Proxy-Authorization''}" for k
    using assms(2) that by (auto simp: trace_only_def)
  have g: "g ''X-Forwarded-For'' = (case SplitHostPort (r_RemoteAddr r) of Some (ip, _) \<Rightarrow> [ip] | None \<Rightarrow> [])"
    "g ''X-Forwarded-Host'' = [r_Host r]" "g ''Proxy-Authorization'' = []"
    using outgoing_forwarded [of "''X-Forwarded-For''" r'] outgoing_proxy_authorization [of r']
    by (auto simp: g_def r'_def SetXForwarded_def header_Set_def header_Del_def proxy_keys Let_def
        split: option.split)
  have h: "r_Header (out_req (upstream_request env u loc r)) k =
      injectUserHeaders (r_ctx r') (pe_Inject env (r_ctx r') g) k" if "k \<noteq> ''User-Agent''" for k
    using that
    by (simp add: upstream_request_def r'_def g_def default_user_agent_def header_Set_def proxy_keys Let_def)
  have "injectUserHeaders (r_ctx r') f = header_Set ''X-Roles'' (Join (Roles c) '','') (header_Set ''X-User'' (Subject c) f)" for f
    using assms(1) by (simp add: injectUserHeaders_def ClaimsFromContext_def r'_def newTargetContext_def)
  with g inj show ?thesis by (simp add: h Let_def header_Set_def proxy_keys)
qed



text \<open>A proxy with one upstream whose breaker is half-open refuses every request and stays so.\<close>

definition wedged :: "string \<Rightarrow> proxy_handler \<Rightarrow> bool" where
  "wedged u p \<longleftrightarrow> rr_urls (ph_lb p) = [u] \<and>
     (\<exists>b. ph_breakers p u = Some b \<and> br_state b = stateHalfOpen)"

definition refused :: "reply \<Rightarrow> bool" where
  "refused reply \<longleftrightarrow> rw_status (served (fst reply)) = Some 503"

lemma single_Next:
  assumes "rr_urls lb = [u]" "Next healthy lb = (res, lb')"
  shows "rr_urls lb' = [u] \<and> (res = Inr u \<or> (\<exists>e. res = Inl e))"
  using assms rr_urls_Next [of healthy lb] Next_result [of lb healthy]
  by (cases res) auto

lemma wedged_step:
  assumes "wedged u p" and "proxy_ServeHTTP env h r (p, w) = (reply, (p', w'))"
  shows "refused reply \<and> wedged u p'"
proof -
  from assms(1) obtain b where b: "ph_breakers p u = Some b" "br_state b = stateHalfOpen"
    and one: "rr_urls (ph_lb p) = [u]" by (auto simp: wedged_def)
  obtain res lb where nx: "Next (pe_IsHealthy env w) (ph_lb p) = (res, lb)" by fastforce
  note sn = single_Next [OF one nx]
  show ?thesis
  proof (cases res)
    case (Inl e)
    with nx assms(2) sn b show ?thesis
      by (auto simp: proxy_no_upstream refused_def served_writeJSON wedged_def)
  next
    case (Inr v)
    with sn nx have "Next (pe_IsHealthy env w) (ph_lb p) = (Inr u, lb)" by auto
    from proxy_rejects [OF this b(1) Allow_simps(2) [OF b(2)]] assms(2) sn b show ?thesis
      by (auto simp: refused_def served_writeJSON wedged_def)
  qed
qed

lemma wedged_forever:
  "wedged u p \<Longrightarrow>
   list_all refused (fst (serve_all (proxy_ServeHTTP env) (map (\<lambda>(f, h, r). (apsnd f, h, r)) evs) (p, w)))"
proof (induction evs arbitrary: p w)
  case (Cons ev evs)
  obtain f h r where ev: "ev = (f, h, r)" by (rule prod_cases3)
  obtain reply p' w' where run: "proxy_ServeHTTP env h r (p, f w) = (reply, (p', w'))" by (rule prod_cases3)
  from wedged_step [OF Cons.prems run] Cons.IH [of p' w'] show ?case
    by (simp add: ev run case_prod_beta)
qed simp

text \<open>
  C36: a probe with an oversized body wedges the breaker. When an open breaker lets a single
  probe through and that request's body turns out to be over the limit, no outcome is recorded,
  so the breaker stays half-open; and then every request to that upstream, at any later time
  and whatever the upstream's state, is refused with 503.
\<close>
theorem oversized_probe_wedges_breaker:
  fixes env :: "'w proxy_env"
  assumes "rr_urls (ph_lb p) = [u]" and "pe_IsHealthy env w u"
    and "ph_breakers p u = Some b" and "br_state b = stateOpen"
    and "br_timeout b \<le> pe_now env w - br_openedAt b"
    and "ascii_print (upgradeType (r_Header r))" and "pe_Parse env u = Some loc"
    and "pe_RoundTrip env (upstream_request env u loc r) w = (Inl err, w')" and "er_MaxBytes err"
  shows "\<exists>reply p' w1. proxy_ServeHTTP env h r (p, w) = (reply, (p', w1)) \<and>
    (\<forall>(env' :: 'w proxy_env) evs w2. list_all refused (fst (serve_all (proxy_ServeHTTP env')
       (map (\<lambda>(f, h, r). (apsnd f, h, r)) evs) (p', w2))))"
proof -
  obtain res lb where nx: "Next (pe_IsHealthy env w) (ph_lb p) = (res, lb)" by fastforce
  have "pick [u] c = u" for c by (simp add: pick_eq)
  then have "fst (Next (pe_IsHealthy env w) (ph_lb p)) = Inr u"
    using assms(1,2) by (simp add: Next_def)
  with nx have next_u: "Next (pe_IsHealthy env w) (ph_lb p) = (Inr u, lb)" by simp
  let ?b = "b\<lparr>br_state := stateHalfOpen\<rparr>" and ?p = "p\<lparr>ph_lb := lb\<rparr>"
  have known: "ph_breakers (set_breaker u ?b ?p) u = Some ?b" by simp
  obtain w1 where rp: "reverse_proxy env (r\<lparr>r_ctx := newTargetContext (r_ctx r) u\<rparr>) (set_breaker u ?b ?p, w) =
      (proxied_reply (Inl err), (set_breaker u (recorded (pe_now env w') (Inl err) ?b) (set_breaker u ?b ?p), w1))"
    using reverse_proxy_known [OF known assms(6,7,8)] by blast
  have "proxy_ServeHTTP env h r (p, w) = (proxied_reply (Inl err), (set_breaker u ?b ?p, w1))"
    using proxy_admits [OF next_u assms(3) Allow_simps(4) [OF assms(4,5)], of h r] rp assms(9) by simp
  moreover have "wedged u (set_breaker u ?b ?p)"
    using single_Next [OF assms(1) nx] by (simp add: wedged_def)
  then have "\<forall>(env' :: 'w proxy_env) evs w2. list_all refused (fst (serve_all (proxy_ServeHTTP env')
      (map (\<lambda>(f, h, r). (apsnd f, h, r)) evs) (set_breaker u ?b ?p, w2)))"
    by (intro allI wedged_forever)
  ultimately show ?thesis by blast
qed

definition too_large :: transport_error where
  "too_large = \<lparr>er_MaxBytes = True, er_DeadlineExceeded = False, er_netTimeout = False\<rparr>"

definition open_breaker :: breaker where
  "open_breaker = \<lparr>br_state = stateOpen, br_failures = 3, br_maxFailures = 3, br_timeout = 50, br_openedAt = 0\<rparr>"

theorem oversized_probe_wedges_breaker_witness:
  "\<exists>reply p'. proxy_ServeHTTP (demo_env (Inl too_large)) empty_header (simple_request ''POST'' ''/'' [])
      (demo_proxy open_breaker, ()) = (reply, (p', ())) \<and>
    refused (fst (proxy_ServeHTTP (demo_env (Inr \<lparr>rs_StatusCode = 200, rs_Header = empty_header, rs_chunks = [],
       rs_copyFails = False\<rparr>)) empty_header (simple_request ''GET'' ''/'' []) (p', ())))"
proof -
  let ?ok = "demo_env (Inr \<lparr>rs_StatusCode = 200, rs_Header = empty_header, rs_chunks = [], rs_copyFails = False\<rparr>)"
  have "\<exists>reply p' w1. proxy_ServeHTTP (demo_env (Inl too_large)) empty_header (simple_request ''POST'' ''/'' [])
      (demo_proxy open_breaker, ()) = (reply, (p', w1)) \<and>
    (\<forall>(env' :: unit proxy_env) evs w2. list_all refused (fst (serve_all (proxy_ServeHTTP env')
       (map (\<lambda>(f, h, r). (apsnd f, h, r)) evs) (p', w2))))"
    by (rule oversized_probe_wedges_breaker [of "demo_proxy open_breaker" "''http://a:1''" "demo_env (Inl too_large)"
          "()" open_breaker "simple_request ''POST'' ''/'' []" "(''http'', ''a:1'')" too_large "()"])
      (simp_all add: demo_env_def demo_proxy_def NewHandler_def NewRoundRobin_def open_breaker_def no_upgrade too_large_def)
  then obtain reply p' w1 where run: "proxy_ServeHTTP (demo_env (Inl too_large)) empty_header
      (simple_request ''POST'' ''/'' []) (demo_proxy open_breaker, ()) = (reply, (p', w1))"
    and all: "\<forall>(env' :: unit proxy_env) evs w2. list_all refused (fst (serve_all (proxy_ServeHTTP env')
       (map (\<lambda>(f, h, r). (apsnd f, h, r)) evs) (p', w2)))"
    by blast
  have "refused (fst (proxy_ServeHTTP ?ok empty_header (simple_request ''GET'' ''/'' []) (p', ())))"
    using all [rule_format, of ?ok "[(\<lambda>w. w, empty_header, simple_request ''GET'' ''/'' [])]" "()"]
    by (simp add: case_prod_beta)
  with run show ?thesis by (cases w1) blast
qed

lemma single_healthy_Next:
  assumes "rr_urls lb = [u]" "healthy u"
  obtains lb' where "rr_urls lb' = [u]" "Next healthy lb = (Inr u, lb')"
proof -
  obtain res lb' where nx: "Next healthy lb = (res, lb')" by fastforce
  have "pick [u] c = u" for c by (simp add: pick_eq)
  then have "fst (Next healthy lb) = Inr u" using assms by (simp add: Next_def)
  with nx single_Next [OF assms(1) nx] show thesis using that by simp
qed

lemma bad_upgrade_step:
  assumes "rr_urls (ph_lb p) = [u]" "pe_IsHealthy env w u" "ph_breakers p u = Some b" "br_state b = stateClosed"
    and "\<not> ascii_print (upgradeType (r_Header r))"
  shows "\<exists>lb. rr_urls lb = [u] \<and> proxy_ServeHTTP env h r (p, w) =
    ((writeJSON 502 [(''error'', ''upstream unavailable'')], Returned_ok),
     (set_breaker u (RecordFailure (pe_now env w) b) (p\<lparr>ph_lb := lb\<rparr>), pe_logError env other_error w))"
proof -
  obtain lb where lb: "rr_urls lb = [u]" and next_u: "Next (pe_IsHealthy env w) (ph_lb p) = (Inr u, lb)"
    by (rule single_healthy_Next [where healthy = "pe_IsHealthy env w", OF assms(1,2)])
  have known: "ph_breakers (set_breaker u b (p\<lparr>ph_lb := lb\<rparr>)) u = Some b" by simp
  show ?thesis
    using proxy_admits [OF next_u assms(3) Allow_simps(1) [OF assms(4)], of h r]
      reverse_proxy_bad_upgrade [OF known assms(5), of env w] lb by auto
qed

text \<open>
  Requests that each count as a failure of the single upstream open its breaker when the
  threshold is reached.
\<close>

definition counts_as_failure :: "'w proxy_env \<Rightarrow> string \<Rightarrow> ('w \<Rightarrow> bool) \<Rightarrow> header \<Rightarrow> request \<Rightarrow> bool" where
  "counts_as_failure env u W h r \<longleftrightarrow>
     (\<forall>p b w. rr_urls (ph_lb p) = [u] \<longrightarrow> ph_breakers p u = Some b \<longrightarrow> br_state b = stateClosed \<longrightarrow> W w \<longrightarrow>
        (\<exists>reply lb t w'. rr_urls lb = [u] \<and> W w' \<and>
           proxy_ServeHTTP env h r (p, w) = (reply, (set_breaker u (RecordFailure t b) (p\<lparr>ph_lb := lb\<rparr>), w'))))"

lemma failures_open_breaker:
  assumes fails: "counts_as_failure env u W h r"
  shows "rr_urls (ph_lb p) = [u] \<Longrightarrow> ph_breakers p u = Some b \<Longrightarrow> br_state b = stateClosed \<Longrightarrow> W w \<Longrightarrow>
    0 \<le> br_failures b \<Longrightarrow> br_failures b + int (Suc n) = br_maxFailures b \<Longrightarrow> is_i64 (br_maxFailures b) \<Longrightarrow>
    \<exists>b'. ph_breakers (fst (snd (serve_all (proxy_ServeHTTP env) (replicate (Suc n) (\<lambda>s. s, h, r)) (p, w)))) u = Some b' \<and>
      br_state b' = stateOpen"
proof (induction n arbitrary: p b w)
  case 0
  with fails obtain reply lb t w' where
    "proxy_ServeHTTP env h r (p, w) = (reply, (set_breaker u (RecordFailure t b) (p\<lparr>ph_lb := lb\<rparr>), w'))"
    unfolding counts_as_failure_def by blast
  moreover have "br_state (RecordFailure t b) = stateOpen"
    using 0 by (simp add: RecordFailure_def Let_def)
  ultimately show ?case by simp
next
  case (Suc n)
  with fails obtain reply lb t w' where lb: "rr_urls lb = [u]" and w': "W w'" and step:
    "proxy_ServeHTTP env h r (p, w) = (reply, (set_breaker u (RecordFailure t b) (p\<lparr>ph_lb := lb\<rparr>), w'))"
    unfolding counts_as_failure_def by blast
  let ?b = "RecordFailure t b"
  have "is_i64 (br_failures b + 1)" using Suc.prems by (simp add: is_i64_def)
  then have "br_failures ?b = br_failures b + 1" "br_state ?b = stateClosed" "br_maxFailures ?b = br_maxFailures b"
    using Suc.prems by (simp_all add: RecordFailure_def Let_def)
  then have "\<exists>b'. ph_breakers (fst (snd (serve_all (proxy_ServeHTTP env) (replicate (Suc n) (\<lambda>s. s, h, r))
      (set_breaker u ?b (p\<lparr>ph_lb := lb\<rparr>), w')))) u = Some b' \<and> br_state b' = stateOpen"
    using Suc.prems lb w' by (intro Suc.IH [where b = ?b]) simp_all
  then show ?case
    by (simp only: replicate_Suc [of "Suc n"] serve_all.simps step prod.case case_prod_beta snd_conv)
qed

lemma failures_open_new_breaker:
  assumes "counts_as_failure env u W h r" "W w" "0 < m" "is_i64 m"
  shows "\<exists>b. ph_breakers (fst (snd (serve_all (proxy_ServeHTTP env) (replicate (nat m) (\<lambda>s. s, h, r))
      (NewHandler (NewRoundRobin [u]) [u \<mapsto> NewBreaker m t], w)))) u = Some b \<and> br_state b = stateOpen"
proof -
  obtain n where n: "nat m = Suc n" using assms(3) by (cases "nat m") simp_all
  show ?thesis
    unfolding n
    by (rule failures_open_breaker [OF assms(1), where b = "NewBreaker m t"])
      (use n assms(2-4) in \<open>simp_all add: NewHandler_def NewRoundRobin_def NewBreaker_def\<close>)
qed

lemma bad_upgrade_fails:
  assumes "\<And>w. pe_IsHealthy env w u" and "\<not> ascii_print (upgradeType (r_Header r))"
  shows "counts_as_failure env u (\<lambda>_. True) h r"
  unfolding counts_as_failure_def using bad_upgrade_step [OF _ assms(1) _ _ assms(2)] by metis

text \<open>
  A client can open the breaker of a healthy upstream. \<^verbatim>\<open>ReverseProxy\<close> rejects a request that
  asks for an upgrade to a protocol with a byte outside printable ASCII before it contacts the
  upstream, but through the same error handler, which records a failure; so as many such
  requests as the breaker tolerates failures open it, whatever the transport would have
  answered.
\<close>
lemma bad_upgrade_requests_open_breaker:
  assumes "\<And>w. pe_IsHealthy env w u" and "\<not> ascii_print (upgradeType (r_Header r))"
    and "0 < m" and "is_i64 m"
  shows "\<exists>b. ph_breakers (fst (snd (serve_all (proxy_ServeHTTP env) (replicate (nat m) (\<lambda>s. s, h, r))
      (NewHandler (NewRoundRobin [u]) [u \<mapsto> NewBreaker m t], w)))) u = Some b \<and> br_state b = stateOpen"
  by (rule failures_open_new_breaker [OF bad_upgrade_fails [OF assms(1,2)] TrueI assms(3,4)])

end
