(* ===== verification/Server.thy ===== *)
theory Server
  imports Gateway_Config Health_Checker Rate_Limit Cache_Middleware Proxy
begin

text \<open>
  \<^verbatim>\<open>cmd/gateway/server.go\<close> and \<^verbatim>\<open>handlers.go\<close>: how the gateway is assembled from a configuration
  and how a request runs through it.

  The chi router is a parameter: \<open>route r\<close> is the endpoint it finds for a request. The state of
  a service is its limiter in front of its cache in front of its proxy in front of the outside
  world \<open>'w\<close>; a middleware that is not mounted leaves its component alone (\<open>unmounted\<close>). The
  state of the router is the edge limiter, the services' own states and the world; around it
  the global middlewares add their components. Key files, PEM and X.509 decoding, the Redis
  ping and the health probes are parameters of the assembly.
\<close>

section \<open>Fixed handlers\<close>

definition healthzHandler :: "'s handler" where
  "healthzHandler h r s = (([HeaderSet ''Cache-Control'' ''no-store'', WriteHeader 200], Returned_ok), s)"

definition notFoundHandler :: "'s handler" where
  "notFoundHandler h r s =
     (([HeaderSet ''Content-Type'' ''application/json'', HeaderSet ''Cache-Control'' ''no-store'',
        WriteHeader 404, Write (json_object [(''error'', ''not found'')])], Returned_ok), s)"

definition methodNotAllowedHandler :: "'s handler" where
  "methodNotAllowedHandler h r s =
     (([HeaderSet ''Content-Type'' ''application/json'', HeaderSet ''Cache-Control'' ''no-store'',
        WriteHeader 405, Write (json_object [(''error'', ''method not allowed'')])], Returned_ok), s)"

text \<open>\<^verbatim>\<open>http.StripPrefix\<close>, for requests without an escaped path of their own.\<close>

definition StripPrefix :: "string \<Rightarrow> 's middleware" where
  "StripPrefix pfx next h r s =
     (if pfx = [] then next h r s
      else
        let p = TrimPrefix (r_Path r) pfx
        in if length p < length (r_Path r) then next h (r\<lparr>r_Path := p\<rparr>) s
           else (([HeaderDel ''Content-Length'', HeaderSet ''Content-Type'' ''text/plain; charset=utf-8'',
                   HeaderSet ''X-Content-Type-Options'' ''nosniff'', WriteHeader 404,
                   Write (''404 page not found'' @ [CHR 0x0A])], Returned_ok), s))"

section \<open>Building the parts\<close>

record redis_options =
  ro_Addr :: string
  ro_Password :: string
  ro_PoolSize :: int
  ro_DialTimeout :: duration
  ro_ReadTimeout :: duration
  ro_WriteTimeout :: duration
  ro_MinTLS12 :: bool

definition buildRedisOptions :: "RedisConfig \<Rightarrow> string \<Rightarrow> redis_options" where
  "buildRedisOptions rc password =
     (let opts = \<lparr>ro_Addr = Addr rc, ro_Password = password, ro_PoolSize = 0, ro_DialTimeout = 0,
                  ro_ReadTimeout = 0, ro_WriteTimeout = 0, ro_MinTLS12 = False\<rparr>;
          opts = (if PoolSize rc > 0 then opts\<lparr>ro_PoolSize := PoolSize rc\<rparr> else opts);
          opts = (if rc_DialTimeout rc > 0 then opts\<lparr>ro_DialTimeout := rc_DialTimeout rc\<rparr> else opts);
          opts = (if ReadTimeout rc > 0 then opts\<lparr>ro_ReadTimeout := ReadTimeout rc\<rparr> else opts);
          opts = (if WriteTimeout rc > 0 then opts\<lparr>ro_WriteTimeout := WriteTimeout rc\<rparr> else opts)
      in if TLS rc then opts\<lparr>ro_MinTLS12 := True\<rparr> else opts)"

datatype 'e build_error =
    MetricsError 'e
  | KeyError 'e
  | NoPEMBlock
  | KeyNotRSA
  | RedisPing 'e
  | AuthWithoutKey string
  | StartupProbe

text \<open>The client is the options it was made with.\<close>

definition buildRedisClient ::
  "(redis_options \<Rightarrow> 'e option) \<Rightarrow> GatewayConfig \<Rightarrow> 'e build_error + redis_options option" where
  "buildRedisClient ping cfg =
     (case RateLimit cfg of
        None \<Rightarrow> Inr None
      | Some rl \<Rightarrow>
          if Backend rl \<noteq> ''redis'' then Inr None
          else
            let opts = buildRedisOptions (Redis rl) (RedisPassword cfg)
            in case ping opts of
                 Some e \<Rightarrow> Inl (RedisPing e)
               | None \<Rightarrow> Inr (Some opts))"

datatype 'k parsed_key = RSAKey 'k | OtherKey

definition loadPublicKey ::
  "(string \<Rightarrow> 'e + string) \<Rightarrow> (string \<Rightarrow> string option) \<Rightarrow> (string \<Rightarrow> 'e + 'k parsed_key) \<Rightarrow> string \<Rightarrow>
   'e build_error + 'k" where
  "loadPublicKey readFile pemDecode parsePKIX path =
     (case readFile path of
        Inl e \<Rightarrow> Inl (KeyError e)
      | Inr data \<Rightarrow>
          (case pemDecode data of
             None \<Rightarrow> Inl NoPEMBlock
           | Some block \<Rightarrow>
               (case parsePKIX block of
                  Inl e \<Rightarrow> Inl (KeyError e)
                | Inr OtherKey \<Rightarrow> Inl KeyNotRSA
                | Inr (RSAKey k) \<Rightarrow> Inr k)))"

text \<open>The limiter of a service: its kind and parameters, and the function that keys requests.\<close>

datatype limiter_spec =
    RedisSpec string real int
  | MemorySpec string real int duration duration

definition buildServiceLimiter ::
  "ServiceConfig \<Rightarrow> GatewayConfig \<Rightarrow> redis_options option \<Rightarrow> (limiter_spec \<times> (request \<Rightarrow> string)) option" where
  "buildServiceLimiter svc cfg redisClient =
     (case (case (sv_RateLimit svc, RateLimit cfg) of
              (Some rl, _) \<Rightarrow> Some (sr_Rate rl, sr_Burst rl, KeyBy rl)
            | (None, Some rl) \<Rightarrow> Some (rl_Rate rl, rl_Burst rl, ''ip'')
            | (None, None) \<Rightarrow> None)
      of None \<Rightarrow> None
       | Some (r, b, keyBy) \<Rightarrow>
           let keyFunc = (if keyBy = ''jwt_sub'' then KeyByJWTSub else KeyByIP);
               pfx = ''svc:'' @ Name svc @ '':''
           in case redisClient of
                Some _ \<Rightarrow> Some (RedisSpec pfx r b, keyFunc)
              | None \<Rightarrow>
                  let (interval, maxIdle) =
                        (case RateLimit cfg of
                           None \<Rightarrow> (Minute, 3 * Minute)
                         | Some rl \<Rightarrow> (CleanupInterval rl, CleanupMaxIdle rl))
                  in Some (MemorySpec pfx r b interval maxIdle, keyFunc))"

definition new_breaker :: "GatewayConfig \<Rightarrow> breaker" where
  "new_breaker cfg =
     (case CircuitBreaker cfg of
        Some cb \<Rightarrow> NewBreaker (MaxFailures cb) (Timeout cb)
      | None \<Rightarrow> NewBreaker maxInt Hour)"

definition build_breakers :: "ServiceConfig \<Rightarrow> GatewayConfig \<Rightarrow> string \<rightharpoonup> breaker" where
  "build_breakers svc cfg = fold (\<lambda>u m. m(u \<mapsto> new_breaker cfg)) (Upstreams svc) Map.empty"

definition buildServiceHandler :: "ServiceConfig \<Rightarrow> GatewayConfig \<Rightarrow> proxy_handler \<times> checker" where
  "buildServiceHandler svc cfg =
     (NewHandler (NewRoundRobin (Upstreams svc)) (build_breakers svc cfg),
      NewChecker (Upstreams svc) (Interval (HealthCheck cfg)) (hc_Path (HealthCheck cfg)))"

text \<open>The transport of a service's proxy, whose round trips are a parameter of the proxy's model.\<close>

record http_transport =
  tr_DialTimeout :: duration
  tr_KeepAlive :: duration
  tr_MaxIdleConns :: int
  tr_MaxIdleConnsPerHost :: int
  tr_IdleConnTimeout :: duration
  tr_TLSHandshakeTimeout :: duration
  tr_ExpectContinueTimeout :: duration
  tr_ForceAttemptHTTP2 :: bool

definition newUpstreamTransport :: "TransportConfig \<Rightarrow> http_transport" where
  "newUpstreamTransport tc =
     \<lparr>tr_DialTimeout = DialTimeout tc, tr_KeepAlive = 30 * Second, tr_MaxIdleConns = MaxIdleConns tc,
      tr_MaxIdleConnsPerHost = MaxIdleConnsPerHost tc, tr_IdleConnTimeout = IdleConnTimeout tc,
      tr_TLSHandshakeTimeout = TLSHandshakeTimeout tc, tr_ExpectContinueTimeout = Second,
      tr_ForceAttemptHTTP2 = True\<rparr>"

definition service_transport :: "GatewayConfig \<Rightarrow> http_transport" where
  "service_transport cfg =
     newUpstreamTransport
       \<lparr>MaxIdleConns = MaxIdleConns (Transport cfg), MaxIdleConnsPerHost = MaxIdleConnsPerHost (Transport cfg),
        IdleConnTimeout = IdleConnTimeout (Transport cfg), DialTimeout = DialTimeout (Transport cfg),
        TLSHandshakeTimeout = TLSHandshakeTimeout (Transport cfg)\<rparr>"

section \<open>The chain of a service\<close>

text \<open>
  The limiter a service was given. A Redis limiter is modelled with the part of the database
  that holds its keys.
\<close>

datatype 'b rate_limiter = MemoryLimiter "'b mem_limiter" | RedisLimiter redis_limiter redis_db

fun limiter_of_spec :: "(nat \<Rightarrow> 'b) \<Rightarrow> redis_db \<Rightarrow> limiter_spec \<Rightarrow> 'b rate_limiter" where
  "limiter_of_spec heap db (MemorySpec pfx r b interval maxIdle) =
     MemoryLimiter (NewMemoryLimiter heap pfx r b interval maxIdle)"
| "limiter_of_spec heap db (RedisSpec pfx r b) = RedisLimiter (NewRedisLimiter pfx r b) db"

text \<open>
  What the gateway uses of the world outside: the JWT library, the token buckets of
  \<^verbatim>\<open>x/time/rate\<close>, the network to Redis, the log, SHA-256, the calls in flight at the cache,
  content sniffing and gzip, random bytes, the tracer, and what the proxies need.
\<close>

record ('k, 'e, 'b, 'g, 'w) gateway_env =
  ge_parser :: "('k, 'e) jwt_parser"
  ge_lim_new :: "real \<Rightarrow> int \<Rightarrow> 'b"
  ge_lim_allow :: "time \<Rightarrow> 'b \<Rightarrow> bool \<times> 'b"
  ge_redis :: "'w \<Rightarrow> 'e redis_env"
  ge_log :: "log_record \<Rightarrow> 'w \<Rightarrow> 'w"
  ge_sha256 :: "string \<Rightarrow> 8 word list"
  ge_flight :: "string \<Rightarrow> (panic + sfResult) option"
  ge_detect :: "string \<Rightarrow> string"
  ge_gzip :: "'g gzip_writer"
  ge_rand :: "'w \<Rightarrow> ('e + 8 word list) \<times> 'w"
  ge_RoutePattern :: "'w \<Rightarrow> string"
  ge_Extract :: "req_ctx \<Rightarrow> header \<Rightarrow> req_ctx"
  ge_StartSpan :: "req_ctx \<Rightarrow> req_ctx"
  ge_proxy :: "'w proxy_env"

abbreviation ge_now :: "('k, 'e, 'b, 'g, 'w) gateway_env \<Rightarrow> 'w \<Rightarrow> time" where
  "ge_now env \<equiv> pe_now (ge_proxy env)"

fun rate_Allow ::
  "('k, 'e, 'b, 'g, 'w) gateway_env \<Rightarrow> 'w \<Rightarrow> string \<Rightarrow> 'b rate_limiter \<Rightarrow> ('e + bool) \<times> 'b rate_limiter" where
  "rate_Allow env w key (MemoryLimiter ml) =
     (case memory_Allow (ge_lim_new env) (ge_lim_allow env) (ge_now env w) key ml of
        (res, ml') \<Rightarrow> (res, MemoryLimiter ml'))"
| "rate_Allow env w key (RedisLimiter rl db) =
     (case redis_Allow rl (ge_redis env w) key db of (res, db') \<Rightarrow> (res, RedisLimiter rl db'))"

text \<open>A middleware with a state of its own is in the chain only if that state was created.\<close>

definition when_mounted :: "('s handler \<Rightarrow> ('c \<times> 's) handler) \<Rightarrow> 's handler \<Rightarrow> ('c option \<times> 's) handler" where
  "when_mounted mw next h r cs =
     (case cs of
        (None, s) \<Rightarrow> (case next h r s of (reply, s') \<Rightarrow> (reply, (None, s')))
      | (Some c, s) \<Rightarrow> (case mw next h r (c, s) of (reply, (c', s')) \<Rightarrow> (reply, (Some c', s'))))"

type_synonym 'b service_state = "'b rate_limiter option \<times> cache_state option \<times> proxy_handler"

definition upstream_chain ::
  "('k, 'e, 'b, 'g, 'w) gateway_env \<Rightarrow> GatewayConfig \<Rightarrow> ServiceConfig \<Rightarrow> (proxy_handler \<times> 'w) handler" where
  "upstream_chain env cfg svc =
     (let base = StripPrefix (Prefix svc) (proxy_ServeHTTP (ge_proxy env))
      in if Enabled (Compression cfg)
         then Compress (ge_detect env) (ge_gzip env) (MinBytes (Compression cfg)) base
         else base)"

definition cache_mw ::
  "('k, 'e, 'b, 'g, 'w) gateway_env \<Rightarrow> ServiceConfig \<Rightarrow>
   (proxy_handler \<times> 'w) handler \<Rightarrow> (cache_state \<times> proxy_handler \<times> 'w) handler" where
  "cache_mw env svc =
     Cache (ge_sha256 env) (\<lambda>s. ge_now env (snd s)) (case sv_Cache svc of Some cc \<Rightarrow> TTL cc | None \<Rightarrow> 0)
       (ge_flight env)"

definition limit_mw ::
  "('k, 'e, 'b, 'g, 'w) gateway_env \<Rightarrow> (request \<Rightarrow> string) \<Rightarrow> (cache_state option \<times> proxy_handler \<times> 'w) handler \<Rightarrow>
   ('b rate_limiter \<times> cache_state option \<times> proxy_handler \<times> 'w) handler" where
  "limit_mw env keyFunc =
     RateLimitMW (rate_Allow env) (\<lambda>s. snd (snd s)) keyFunc
       (\<lambda>l s. (fst s, fst (snd s), ge_log env l (snd (snd s))))"

definition inner_chain ::
  "('k, 'e, 'b, 'g, 'w) gateway_env \<Rightarrow> GatewayConfig \<Rightarrow> ServiceConfig \<Rightarrow> redis_options option \<Rightarrow>
   ('b rate_limiter option \<times> cache_state option \<times> proxy_handler \<times> 'w) handler" where
  "inner_chain env cfg svc redisClient =
     (let keyFunc = (case buildServiceLimiter svc cfg redisClient of Some (_, k) \<Rightarrow> k | None \<Rightarrow> KeyByIP);
          h = upstream_chain env cfg svc;
          h = when_mounted (cache_mw env svc) h;
          h = when_mounted (limit_mw env keyFunc) h
      in if RequiredRoles svc \<noteq> [] then RequireAnyRole (RequiredRoles svc) h else h)"

definition service_chain ::
  "('k, 'e, 'b, 'g, 'w) gateway_env \<Rightarrow> GatewayConfig \<Rightarrow> ServiceConfig \<Rightarrow> redis_options option \<Rightarrow> 'k option \<Rightarrow>
   ('b rate_limiter option \<times> cache_state option \<times> proxy_handler \<times> 'w) handler" where
  "service_chain env cfg svc redisClient publicKey =
     (let h = inner_chain env cfg svc redisClient
      in case publicKey of
           Some k \<Rightarrow> if Auth svc then JWTAuth (ge_parser env) k h else h
         | None \<Rightarrow> h)"

text \<open>The state a service starts with, and its health checker.\<close>

definition new_service ::
  "(nat \<Rightarrow> 'b) \<Rightarrow> redis_db \<Rightarrow> GatewayConfig \<Rightarrow> redis_options option \<Rightarrow> ServiceConfig \<Rightarrow> 'b service_state" where
  "new_service heap db cfg redisClient svc =
     (map_option (\<lambda>(spec, _). limiter_of_spec heap db spec) (buildServiceLimiter svc cfg redisClient),
      map_option (\<lambda>cc. \<lparr>c_lru = NewLRU (MaxEntries cc) (MaxBytes cc), c_vary = newVaryState\<rparr>) (sv_Cache svc),
      fst (buildServiceHandler svc cfg))"

section \<open>The router\<close>

datatype endpoint = Healthz | Service nat | NotFound | MethodNotAllowed

type_synonym ('b, 'w) router_state = "'b mem_limiter \<times> 'b service_state list \<times> 'w"

definition edgeRateLimit ::
  "('k, 'e, 'b, 'g, 'w) gateway_env \<Rightarrow> 'w handler \<Rightarrow> ('b mem_limiter \<times> 'w) handler" where
  "edgeRateLimit env =
     RateLimitMW (memory_Allow (ge_lim_new env) (ge_lim_allow env) ::
         time \<Rightarrow> string \<Rightarrow> 'b mem_limiter \<Rightarrow> ('e + bool) \<times> 'b mem_limiter)
       (ge_now env) KeyByIP (ge_log env)"

definition edge_endpoint :: "endpoint \<Rightarrow> 'w handler" where
  "edge_endpoint e =
     (case e of
        Healthz \<Rightarrow> healthzHandler
      | MethodNotAllowed \<Rightarrow> methodNotAllowedHandler
      | _ \<Rightarrow> notFoundHandler)"

text \<open>
  What chi does with a request: \<open>route\<close> finds the endpoint, and the handler registered for it
  runs. A service is numbered as in the configuration.
\<close>

definition dispatch ::
  "('k, 'e, 'b, 'g, 'w) gateway_env \<Rightarrow> GatewayConfig \<Rightarrow> redis_options option \<Rightarrow> 'k option \<Rightarrow>
   (request \<Rightarrow> endpoint) \<Rightarrow> ('b, 'w) router_state handler" where
  "dispatch env cfg redisClient publicKey route h r st =
     (case st of
        (edge, svs, w) \<Rightarrow>
          let at_edge = (case edgeRateLimit env (edge_endpoint (route r)) h r (edge, w) of
                           (reply, (edge', w')) \<Rightarrow> (reply, (edge', svs, w')))
          in case route r of
               Service i \<Rightarrow>
                 if i < length svs then
                   (case svs ! i of
                      (l, c, p) \<Rightarrow>
                        (case service_chain env cfg (Services cfg ! i) redisClient publicKey h r (l, c, p, w) of
                           (reply, (l', c', p', w')) \<Rightarrow> (reply, (edge, svs[i := (l', c', p')], w'))))
                 else at_edge
             | _ \<Rightarrow> at_edge)"

section \<open>The gateway\<close>

type_synonym ('b, 'w) gateway_state = "Metrics \<times> span list \<times> nat \<times> ('b, 'w) router_state"

definition router_world :: "('b, 'w) router_state \<Rightarrow> 'w" where
  "router_world st = snd (snd st)"

definition map_world :: "('w \<Rightarrow> 'w) \<Rightarrow> ('b, 'w) gateway_state \<Rightarrow> ('b, 'w) gateway_state" where
  "map_world f s = (case s of (m, spans, n, edge, svs, w) \<Rightarrow> (m, spans, n, edge, svs, f w))"

definition gateway_world :: "('b, 'w) gateway_state \<Rightarrow> 'w" where
  "gateway_world s = router_world (snd (snd (snd s)))"

definition rand_Read ::
  "('k, 'e, 'b, 'g, 'w) gateway_env \<Rightarrow> ('b, 'w) gateway_state \<Rightarrow> ('e + 8 word list) \<times> ('b, 'w) gateway_state" where
  "rand_Read env s = (case ge_rand env (gateway_world s) of (read, w) \<Rightarrow> (read, map_world (\<lambda>_. w) s))"

text \<open>The handler \<open>buildRouter\<close> returns: the global middlewares in the order they are mounted.\<close>

definition gateway_handler ::
  "('k, 'e, 'b, 'g, 'w) gateway_env \<Rightarrow> GatewayConfig \<Rightarrow> redis_options option \<Rightarrow> 'k option \<Rightarrow>
   (request \<Rightarrow> endpoint) \<Rightarrow> ('b, 'w) gateway_state handler" where
  "gateway_handler env cfg redisClient publicKey route =
     (let logger = (\<lambda>l. map_world (ge_log env l))
      in Recoverer logger
           (RequestID (rand_Read env)
             (Logger logger (\<lambda>s. ge_now env (gateway_world s))
               (MaxBody (MaxBodyBytes cfg)
                 (metrics_Middleware (\<lambda>s. ge_now env (router_world (snd (snd s))))
                     (\<lambda>s. ge_RoutePattern env (router_world (snd (snd s))))
                   (Tracing (ge_Extract env) (ge_StartSpan env)
                     (ConcurrencyLimit (MaxInFlight cfg)
                       (dispatch env cfg redisClient publicKey route))))))))"

section \<open>Start-up\<close>

text \<open>What the start-up of the gateway meets: key files, Redis, and the answers of the upstreams.\<close>

record ('k, 'e, 'b) startup_env =
  su_meter :: "'e meter"
  su_ReadFile :: "string \<Rightarrow> 'e + string"
  su_pemDecode :: "string \<Rightarrow> string option"
  su_ParsePKIX :: "string \<Rightarrow> 'e + 'k parsed_key"
  su_ping :: "redis_options \<Rightarrow> 'e option"
  su_heap :: "nat \<Rightarrow> 'b"
  su_db :: redis_db
  su_probe :: "string \<Rightarrow> string \<Rightarrow> probe_outcome"
  su_order :: "string \<Rightarrow> string list"
  su_poll :: "string \<Rightarrow> string \<Rightarrow> probe_outcome"

record ('k, 'b) router =
  ro_key :: "'k option"
  ro_redis :: "redis_options option"
  ro_metrics :: Metrics
  ro_edge :: "'b mem_limiter"
  ro_services :: "'b service_state list"
  ro_checks :: "(string \<times> string list \<times> checker) list"

fun register_services ::
  "('k, 'e, 'b) startup_env \<Rightarrow> GatewayConfig \<Rightarrow> 'k option \<Rightarrow> redis_options option \<Rightarrow> ServiceConfig list \<Rightarrow>
   'e build_error + ('b service_state list \<times> (string \<times> string list \<times> checker) list)" where
  "register_services su cfg publicKey redisClient [] = Inr ([], [])"
| "register_services su cfg publicKey redisClient (svc # rest) =
     (if Auth svc \<and> publicKey = None then Inl (AuthWithoutKey (Name svc))
      else
        case register_services su cfg publicKey redisClient rest of
          Inl err \<Rightarrow> Inl err
        | Inr (svs, checks) \<Rightarrow>
            Inr (new_service (su_heap su) (su_db su) cfg redisClient svc # svs,
                 (Name svc, Upstreams svc, snd (buildServiceHandler svc cfg)) # checks))"

definition health_samples :: "(string \<times> string list \<times> checker) list \<Rightarrow> UpstreamHealthSample list" where
  "health_samples checks =
     concat (map (\<lambda>(name, upstreams, ck).
       map (\<lambda>u. \<lparr>us_Service = name, us_Upstream = u, us_Healthy = IsHealthy ck u\<rparr>) upstreams) checks)"

text \<open>The probes run concurrently; any failure fails the start-up. Then polling starts.\<close>

definition startup_checks ::
  "('k, 'e, 'b) startup_env \<Rightarrow> (string \<times> string list \<times> checker) list \<Rightarrow> (string \<times> string list \<times> checker) list option" where
  "startup_checks su checks =
     (let probed = map (\<lambda>(name, upstreams, ck).
            (name, upstreams, Probe (su_probe su name) (su_order su name) ck)) checks
      in if list_ex (\<lambda>(name, upstreams, err, ck). err \<noteq> None) probed then None
         else Some (map (\<lambda>(name, upstreams, err, ck).
                (name, upstreams, Start (su_poll su name) (su_order su name) [] ck)) probed))"

definition buildRouter :: "('k, 'e, 'b) startup_env \<Rightarrow> GatewayConfig \<Rightarrow> 'e build_error + ('k, 'b) router" where
  "buildRouter su cfg =
     (case NewMetrics (su_meter su) of
        Inl err \<Rightarrow> Inl (MetricsError err)
      | Inr m \<Rightarrow>
     (case (if JWTPublicKey cfg \<noteq> [] then
              map_sum id Some (loadPublicKey (su_ReadFile su) (su_pemDecode su) (su_ParsePKIX su) (JWTPublicKey cfg))
            else Inr None) of
        Inl err \<Rightarrow> Inl err
      | Inr publicKey \<Rightarrow>
     (case buildRedisClient (su_ping su) cfg of
        Inl err \<Rightarrow> Inl err
      | Inr redisClient \<Rightarrow>
     (case register_services su cfg publicKey redisClient (Services cfg) of
        Inl err \<Rightarrow> Inl err
      | Inr (svs, checks) \<Rightarrow>
     (case RegisterUpstreamHealth (su_meter su) of
        Some err \<Rightarrow> Inl (MetricsError err)
      | None \<Rightarrow>
     (case startup_checks su checks of
        None \<Rightarrow> Inl StartupProbe
      | Some checks \<Rightarrow>
          Inr \<lparr>ro_key = publicKey, ro_redis = redisClient, ro_metrics = m,
               ro_edge = NewMemoryLimiter (su_heap su) [] 10 20 Minute (3 * Minute),
               ro_services = svs, ro_checks = checks\<rparr>))))))"

definition initial_state :: "('k, 'b) router \<Rightarrow> 'w \<Rightarrow> ('b, 'w) gateway_state" where
  "initial_state ro w = (ro_metrics ro, [], 0, ro_edge ro, ro_services ro, w)"

section \<open>Laws of the parts\<close>

lemma build_breakers_apply:
  "build_breakers svc cfg u = (if u \<in> set (Upstreams svc) then Some (new_breaker cfg) else None)"
proof -
  have "fold (\<lambda>u m. m(u \<mapsto> b)) us m u = (if u \<in> set us then Some b else m u)" for us m and b :: breaker
    by (induction us arbitrary: m) auto
  then show ?thesis by (simp add: build_breakers_def)
qed

lemma build_breakers_dom: "dom (build_breakers svc cfg) = set (Upstreams svc)"
  by (auto simp: build_breakers_apply split: if_splits)

lemma new_handler_inv:
  "length (Upstreams svc) < 2 ^ 64 \<Longrightarrow> proxy_inv (Upstreams svc) (fst (buildServiceHandler svc cfg))"
  by (simp add: buildServiceHandler_def proxy_inv_def NewHandler_def NewRoundRobin_def build_breakers_dom)

text \<open>With a validated configuration no connection attempt and no idle connection is unbounded.\<close>

lemma service_transport_bounded:
  "config_ok cfg \<Longrightarrow>
   0 < tr_DialTimeout (service_transport cfg) \<and> 0 < tr_TLSHandshakeTimeout (service_transport cfg) \<and>
   0 < tr_IdleConnTimeout (service_transport cfg) \<and> 0 < tr_MaxIdleConns (service_transport cfg)"
  by (simp add: service_transport_def newUpstreamTransport_def config_ok_def transport_ok_def)

lemma service_chain_inner:
  "service_chain env cfg svc redisClient publicKey =
     (if Auth svc \<and> publicKey \<noteq> None then JWTAuth (ge_parser env) (the publicKey) (inner_chain env cfg svc redisClient)
      else inner_chain env cfg svc redisClient)"
  by (simp add: service_chain_def Let_def split: option.split)

end
