(* ===== verification/Handler_Contract.thy ===== *)
theory Handler_Contract
  imports Server
begin

text \<open>
  What a handler promises to the middleware around it, and that every middleware passes the
  promise on. The contract has three parts: a condition \<open>Q\<close> on the requests it is about, an
  invariant \<open>I\<close> of the state that such a request keeps, and a condition \<open>V\<close> on the panics with
  which it may end. The locale \<open>handler_contract\<close> says what \<open>Q\<close> and \<open>V\<close> have to allow: the
  path of a request may be stripped, and the single-flight group may wrap a panic.
\<close>

definition contract ::
  "(request \<Rightarrow> bool) \<Rightarrow> (panic \<Rightarrow> bool) \<Rightarrow> ('s \<Rightarrow> bool) \<Rightarrow> 's handler \<Rightarrow> bool" where
  "contract Q V I H \<longleftrightarrow>
     (\<forall>h r s. Q r \<longrightarrow> I s \<longrightarrow> I (snd (H h r s)) \<and> (\<forall>v. snd (fst (H h r s)) = Panicked v \<longrightarrow> V v))"

lemma contractI:
  assumes "\<And>h r s ops out s'. Q r \<Longrightarrow> I s \<Longrightarrow> H h r s = ((ops, out), s') \<Longrightarrow>
    I s' \<and> (\<forall>v. out = Panicked v \<longrightarrow> V v)"
  shows "contract Q V I H"
  using assms unfolding contract_def by (metis prod.collapse)

lemma contractD:
  assumes "contract Q V I H" "Q r" "I s"
  shows "H h r s = ((ops, out), s') \<Longrightarrow> I s'" and "H h r s = ((ops, Panicked v), s') \<Longrightarrow> V v"
  using assms unfolding contract_def by (metis fst_conv snd_conv)+

section \<open>The limiters\<close>

fun limiter_inv :: "'b rate_limiter \<Rightarrow> bool" where
  "limiter_inv (MemoryLimiter ml) = mem_inv ml"
| "limiter_inv (RedisLimiter rl db) = True"

lemma rate_Allow_inv: "limiter_inv l \<Longrightarrow> limiter_inv (snd (rate_Allow env w k l))"
  by (cases l) (simp_all add: case_prod_beta meml.allow_invar)

section \<open>The contract\<close>

locale handler_contract =
  fixes Q :: "request \<Rightarrow> bool" and V :: "panic \<Rightarrow> bool"
  assumes Q_path: "Q r \<Longrightarrow> Q (r\<lparr>r_Path := p\<rparr>)"
    and V_wrapped: "V v \<Longrightarrow> V (PanicError v)"
begin

lemma keeps_const: "contract Q V I (\<lambda>h r s. ((ops, Returned_ok), s))"
  by (simp add: contract_def)

lemma keeps_edge_endpoint: "contract Q V I (edge_endpoint e)"
  by (cases e) (simp_all add: contract_def edge_endpoint_def healthzHandler_def notFoundHandler_def
    methodNotAllowedHandler_def)

lemma keeps_StripPrefix:
  assumes "contract Q V I next"
  shows "contract Q V I (StripPrefix pfx next)"
  by (rule contractI)
    (auto simp: StripPrefix_def Let_def dest: contractD [OF assms] contractD [OF assms Q_path] split: if_splits)

lemma keeps_RequireAnyRole: "contract Q V I next \<Longrightarrow> contract Q V I (RequireAnyRole roles next)"
  by (auto simp: contract_def RequireAnyRole_spec unauthorized_def split: option.splits)

lemma keeps_Recoverer:
  assumes "contract Q V I next" and "\<And>l s. I s \<Longrightarrow> I (logger l s)"
  shows "contract Q V I (Recoverer logger next)"
  by (rule contractI)
    (auto simp: Recoverer_def dest: contractD [OF assms(1)] intro: assms(2) split: prod.splits outcome.splits)

lemma keeps_Logger:
  assumes "contract Q V I next" and "\<And>l s. I s \<Longrightarrow> I (logger l s)"
  shows "contract Q V I (Logger logger now next)"
  by (rule contractI)
    (auto simp: Logger_def Let_def dest: contractD [OF assms(1)] intro!: assms(2) split: prod.splits outcome.splits)

lemma keeps_metrics:
  assumes "contract Q V I next"
  shows "contract Q V (\<lambda>s. I (snd s)) (metrics_Middleware now rp next)"
  by (rule contractI)
    (auto simp: metrics_Middleware_def Let_def dest: contractD [OF assms] split: prod.splits outcome.splits)

lemma keeps_ConcurrencyLimit:
  assumes "contract Q V I next"
  shows "contract Q V (\<lambda>s. I (snd s)) (ConcurrencyLimit limit next)"
  by (rule contractI)
    (auto simp: ConcurrencyLimit_def dest: contractD [OF assms] split: prod.splits if_splits)

lemma keeps_Compress:
  assumes "contract Q V I next"
  shows "contract Q V I (Compress det gz n next)"
  by (rule contractI)
    (auto simp: Compress_def Let_def dest: contractD [OF assms] split: prod.splits if_splits)

lemma keeps_RateLimit:
  assumes "contract Q V I next" and "\<And>l s. I s \<Longrightarrow> I (logger l s)"
    and "\<And>s k l. L l \<Longrightarrow> L (snd (allow (env s) k l))"
  shows "contract Q V (\<lambda>s. L (fst s) \<and> I (snd s)) (RateLimitMW allow env keyFunc logger next)"
proof (rule contractI)
  fix h r ls ops out ls'
  assume Q: "Q r" and inv: "L (fst ls) \<and> I (snd ls)"
    and eq: "RateLimitMW allow env keyFunc logger next h r ls = ((ops, out), ls')"
  obtain l s where ls: "ls = (l, s)" by fastforce
  obtain res l' where al: "allow (env s) (keyFunc r) l = (res, l')" by fastforce
  from inv ls have l: "L l" and s: "I s" by simp_all
  from assms(3) [OF l, of s "keyFunc r"] al have l': "L l'" by simp
  note nxt = contractD [OF assms(1) Q s] contractD [OF assms(1) Q assms(2) [OF s]]
  show "(L (fst ls') \<and> I (snd ls')) \<and> (\<forall>v. out = Panicked v \<longrightarrow> V v)"
    using eq ls al l' s
    by (auto simp: RateLimitMW_def Let_def dest: nxt split: sum.splits prod.splits if_splits)
qed

lemma keeps_fillCache:
  assumes "contract Q V I next" "Q r" "I s" "lru_inv (c_lru c)"
    and eq: "fillCache sha now next ttl r (c, s) = (res, c', s')"
  shows "lru_inv (c_lru c')" "I s'" "res = Inl v \<Longrightarrow> V v"
proof -
  obtain ops out s1 where nx: "next empty_header r s = ((ops, out), s1)" by (metis prod.exhaust)
  have lset: "lru_inv (lru_Set k e (c_lru c))" for k e
    using assms(4) by (auto simp: lru_inv_def [of "c_lru c"] intro: lru_inv_Set)
  have "lru_inv (c_lru c') \<and> I s' \<and> (res = Inl v \<longrightarrow> V v)"
    using eq nx contractD(1) [OF assms(1-3) nx] contractD(2) [OF assms(1-3), of empty_header] assms(4) lset
    by (cases out) (auto simp: fillCache_returned fillCache_panicked split: if_splits)
  then show "lru_inv (c_lru c')" "I s'" "res = Inl v \<Longrightarrow> V v" by simp_all
qed

lemma keeps_Cache:
  assumes "contract Q V I next" and "\<And>k v. flight k = Some (Inl v) \<Longrightarrow> V v"
  shows "contract Q V (\<lambda>s. lru_inv (c_lru (fst s)) \<and> I (snd s)) (Cache sha now ttl flight next)"
proof (rule contractI)
  fix h r cs ops out cs'
  assume Q: "Q r" and inv: "lru_inv (c_lru (fst cs)) \<and> I (snd cs)"
    and eq: "Cache sha now ttl flight next h r cs = ((ops, out), cs')"
  obtain c s where cs: "cs = (c, s)" by fastforce
  with inv have s: "I s" and c: "lru_inv (c_lru c)" by simp_all
  show "(lru_inv (c_lru (fst cs')) \<and> I (snd cs')) \<and> (\<forall>v. out = Panicked v \<longrightarrow> V v)"
  proof (cases "bypasses r")
    case True
    with eq cs c show ?thesis using contractD [OF assms(1) Q s, of h]
      by (cases "next h r s") (auto simp: Cache_bypass)
  next
    case False
    obtain hit l where look: "cache_lookup (now s) c r = (hit, l)" by fastforce
    have l: "lru_inv l"
      using look c lru_inv_Get [OF c] by (auto simp: cache_lookup_def split: if_splits) (metis snd_conv)
    show ?thesis
    proof (cases hit)
      case (Some e)
      with False look eq cs l s show ?thesis by (auto simp: Cache_hit)
    next
      case None
      show ?thesis
      proof (cases "flight (lookup_key c r)")
        case flown: None
        obtain res c1 s1 where fill: "fillCache sha now next ttl r (c\<lparr>c_lru := l\<rparr>, s) = (res, c1, s1)"
          by (metis prod.exhaust)
        note f = keeps_fillCache [OF assms(1) Q s _ fill]
        from False look None flown fill eq cs
        have "cs' = (c1, s1)" "(ops, out) = led_reply r res" by (auto simp: Cache_lead)
        with f l V_wrapped show ?thesis by (cases res) (auto simp: led_reply_def)
      next
        case (Some res)
        with False look None eq cs l s assms(2) V_wrapped show ?thesis
          by (cases res) (auto simp: Cache_follow led_reply_def)
      qed
    qed
  qed
qed

lemma keeps_when_mounted:
  assumes "contract Q V (\<lambda>s. C (fst s) \<and> I (snd s)) (mw next)" and "contract Q V I next"
  shows "contract Q V (\<lambda>s. pred_option C (fst s) \<and> I (snd s)) (when_mounted mw next)"
proof (rule contractI)
  fix h r cs ops out cs'
  assume Q: "Q r" and inv: "pred_option C (fst cs) \<and> I (snd cs)"
    and eq: "when_mounted mw next h r cs = ((ops, out), cs')"
  obtain c s where cs: "cs = (c, s)" by fastforce
  show "(pred_option C (fst cs') \<and> I (snd cs')) \<and> (\<forall>v. out = Panicked v \<longrightarrow> V v)"
  proof (cases c)
    case None
    with inv eq cs show ?thesis using contractD [OF assms(2) Q, of s h]
      by (auto simp: when_mounted_def split: prod.splits)
  next
    case (Some c1)
    with inv cs have "C (fst (c1, s)) \<and> I (snd (c1, s))" by simp
    from contractD [OF assms(1) Q this, of h] Some eq cs show ?thesis
      by (auto simp: when_mounted_def split: prod.splits)
  qed
qed

text \<open>The part of a service's chain behind authentication, from the proxy outwards.\<close>

lemma keeps_inner_chain:
  assumes proxy: "contract Q V (\<lambda>s. I (fst s) (snd s)) (proxy_ServeHTTP (ge_proxy env))"
    and log: "\<And>l p w. I p w \<Longrightarrow> I p (ge_log env l w)"
    and flight: "\<And>k v. ge_flight env k = Some (Inl v) \<Longrightarrow> V v"
  shows "contract Q V (\<lambda>s. pred_option limiter_inv (fst s) \<and> pred_option (\<lambda>c. lru_inv (c_lru c)) (fst (snd s)) \<and>
      I (fst (snd (snd s))) (snd (snd (snd s))))
    (inner_chain env cfg svc redisClient)"
proof -
  have up: "contract Q V (\<lambda>s. I (fst s) (snd s)) (upstream_chain env cfg svc)"
    unfolding upstream_chain_def Let_def
    by (cases "Enabled (Compression cfg)") (simp_all add: keeps_Compress keeps_StripPrefix proxy)
  have cached: "contract Q V (\<lambda>s. pred_option (\<lambda>c. lru_inv (c_lru c)) (fst s) \<and> I (fst (snd s)) (snd (snd s)))
      (when_mounted (cache_mw env svc) (upstream_chain env cfg svc))"
    unfolding cache_mw_def
    by (rule keeps_when_mounted [where I = "\<lambda>s. I (fst s) (snd s)"], rule keeps_Cache)
      (use flight up in auto)
  have "contract Q V (\<lambda>s. pred_option limiter_inv (fst s) \<and> pred_option (\<lambda>c. lru_inv (c_lru c)) (fst (snd s)) \<and>
      I (fst (snd (snd s))) (snd (snd (snd s))))
      (when_mounted (limit_mw env keyFunc) (when_mounted (cache_mw env svc) (upstream_chain env cfg svc)))"
    for keyFunc
    unfolding limit_mw_def
    by (rule keeps_when_mounted [where I = "\<lambda>s. pred_option (\<lambda>c. lru_inv (c_lru c)) (fst s) \<and>
          I (fst (snd s)) (snd (snd s))"], rule keeps_RateLimit)
      (auto intro: cached rate_Allow_inv log)
  then show ?thesis
    unfolding inner_chain_def Let_def
    by (cases "RequiredRoles svc = []") (simp_all add: keeps_RequireAnyRole)
qed

end

text \<open>
  A contract about what neither the context of a request nor the limit on its body can change
  also passes the middlewares that set these.
\<close>

locale request_contract = handler_contract +
  assumes Q_ctx: "Q r \<Longrightarrow> Q (r\<lparr>r_ctx := ctx\<rparr>)"
    and Q_limit: "Q r \<Longrightarrow> Q (r\<lparr>r_bodyLimit := l\<rparr>)"
begin

lemma keeps_JWTAuth:
  assumes "contract Q V I next"
  shows "contract Q V I (JWTAuth P key next)"
proof (rule contractI)
  fix h r s ops out s'
  assume "Q r" "I s" and eq: "JWTAuth P key next h r s = ((ops, out), s')"
  then show "I s' \<and> (\<forall>v. out = Panicked v \<longrightarrow> V v)"
    using contractD [OF assms Q_ctx [OF \<open>Q r\<close>] \<open>I s\<close>]
    by (cases rule: JWTAuth_cases [of P key "next" h r s]) (auto simp: unauthorized_def)
qed

lemma keeps_MaxBody:
  assumes "contract Q V I next"
  shows "contract Q V I (MaxBody limit next)"
  by (rule contractI) (auto simp: MaxBody_def dest: contractD [OF assms Q_limit] split: if_splits)

lemma keeps_RequestID:
  assumes "contract Q V I next" and "\<And>s. I s \<Longrightarrow> I (snd (rnd s))"
  shows "contract Q V I (RequestID rnd next)"
proof (rule contractI)
  fix h r s ops out s'
  assume Q: "Q r" and s: "I s" and eq: "RequestID rnd next h r s = ((ops, out), s')"
  obtain read s1 where rd: "rnd s = (read, s1)" by fastforce
  with assms(2) [OF s] have s1: "I s1" by simp
  show "I s' \<and> (\<forall>v. out = Panicked v \<longrightarrow> V v)"
    using eq rd s1
    by (auto simp: RequestID_def dest: contractD [OF assms(1) Q_ctx [OF Q] s1] split: sum.splits prod.splits)
qed

lemma keeps_Tracing:
  assumes "contract Q V I next"
  shows "contract Q V (\<lambda>s. I (snd s)) (Tracing ext st next)"
  by (rule contractI)
    (auto simp: Tracing_def Let_def dest: contractD [OF assms Q_ctx] split: prod.splits outcome.splits)

lemma keeps_service_chain:
  assumes "contract Q V I (inner_chain env cfg svc redisClient)"
  shows "contract Q V I (service_chain env cfg svc redisClient publicKey)"
  using assms
  by (cases publicKey; cases "Auth svc") (simp_all add: service_chain_inner keeps_JWTAuth)

end

section \<open>Panics that abort a response\<close>

text \<open>
  Of a request to the gateway nothing is assumed; a handler may panic only to abort a response,
  as the reverse proxy does when the upstream's body breaks off.
\<close>

fun is_abort :: "panic \<Rightarrow> bool" where
  "is_abort ErrAbortHandler = True"
| "is_abort (PanicError v) = is_abort v"
| "is_abort (PanicMsg _) = False"

abbreviation guarded :: "('s \<Rightarrow> bool) \<Rightarrow> 's handler \<Rightarrow> bool" where
  "guarded \<equiv> contract (\<lambda>_. True) is_abort"

interpretation aborts: request_contract "\<lambda>_. True" is_abort
  by unfold_locales simp_all

section \<open>Requests of one user\<close>

text \<open>Behind authentication, the requests whose context carries given claims.\<close>

abbreviation carries :: "claims \<Rightarrow> request \<Rightarrow> bool" where
  "carries c r \<equiv> ctx_claims (r_ctx r) = Some c"

interpretation user: handler_contract "carries c" "\<lambda>_. True" for c
  by unfold_locales simp_all

section \<open>Requests with given credentials\<close>

abbreviation presents :: "string set \<Rightarrow> request \<Rightarrow> bool" where
  "presents A r \<equiv> header_Get (r_Header r) ''Authorization'' \<in> A"

interpretation creds: request_contract "presents A" "\<lambda>_. True" for A
  by unfold_locales simp_all

text \<open>
  Where authentication leads from the one to the other: the requests it lets through carry the
  claims of a token that was presented.
\<close>

lemma JWTAuth_presented:
  assumes "\<And>ts t c. ''Bearer '' @ ts \<in> A \<Longrightarrow> parseAndValidateToken P ts key = Inr t \<Longrightarrow> extractClaims t = Inr c \<Longrightarrow>
    contract (carries c) (\<lambda>_. True) I next"
  shows "contract (presents A) (\<lambda>_. True) I (JWTAuth P key next)"
proof (rule contractI)
  fix h r s ops out s'
  assume r: "presents A r" and s: "I s" and eq: "JWTAuth P key next h r s = ((ops, out), s')"
  show "I s' \<and> (\<forall>v. out = Panicked v \<longrightarrow> True)"
  proof (cases rule: JWTAuth_cases [of P key "next" h r s])
    case (refused msg)
    with eq s show ?thesis by simp
  next
    case (admitted ts t c)
    with r have "contract (carries c) (\<lambda>_. True) I next" by (intro assms [of ts t]) auto
    with contractD(1) [OF this _ s, of "r\<lparr>r_ctx := newClaimsContext (r_ctx r) c\<rparr>" h ops out s'] admitted(4) eq
    show ?thesis by (simp add: newClaimsContext_def)
  qed
qed

end
