(* ===== verification/Gateway_Laws.thy ===== *)
theory Gateway_Laws
  imports Handler_Contract
begin

text \<open>
  The gateway as a whole: the invariant its parts keep together while requests are served, what
  a successful start-up establishes, and the properties of the assembled gateway.
\<close>

section \<open>The invariant of the gateway\<close>

definition service_inv :: "ServiceConfig \<Rightarrow> 'b service_state \<Rightarrow> bool" where
  "service_inv svc s =
     (case s of (l, c, p) \<Rightarrow>
        pred_option limiter_inv l \<and> pred_option (\<lambda>c. lru_inv (c_lru c)) c \<and> proxy_inv (Upstreams svc) p)"

definition router_inv :: "GatewayConfig \<Rightarrow> ('b, 'w) router_state \<Rightarrow> bool" where
  "router_inv cfg st =
     (case st of (edge, svs, w) \<Rightarrow> mem_inv edge \<and> list_all2 service_inv (Services cfg) svs)"

text \<open>What the environment has to offer: upstream URLs that parse, and only aborts in flight.\<close>

definition env_ok :: "('k, 'e, 'b, 'g, 'w) gateway_env \<Rightarrow> GatewayConfig \<Rightarrow> bool" where
  "env_ok env cfg \<longleftrightarrow>
     (\<forall>svc \<in> set (Services cfg). \<forall>u \<in> set (Upstreams svc). pe_Parse (ge_proxy env) u \<noteq> None) \<and>
     (\<forall>k v. ge_flight env k = Some (Inl v) \<longrightarrow> is_abort v)"

lemma guarded_proxy:
  assumes "\<forall>u \<in> set urls. pe_Parse env u \<noteq> None"
  shows "guarded (\<lambda>s. proxy_inv urls (fst s)) (proxy_ServeHTTP env)"
proof (rule contractI)
  fix h r s ops out s'
  assume "proxy_inv urls (fst s)" "proxy_ServeHTTP env h r s = ((ops, out), s')"
  then show "proxy_inv urls (fst s') \<and> (\<forall>v. out = Panicked v \<longrightarrow> is_abort v)"
    using proxy_keeps_inv [of urls "fst s" env h r "snd s" ops out "fst s'" "snd s'"] assms
    by (auto simp: list_all_iff)
qed

text \<open>What a service's chain is to keep: its own invariant, and a property \<open>J\<close> of the world.\<close>

definition chain_inv ::
  "ServiceConfig \<Rightarrow> ('w \<Rightarrow> bool) \<Rightarrow> 'b rate_limiter option \<times> cache_state option \<times> proxy_handler \<times> 'w \<Rightarrow> bool" where
  "chain_inv svc J s = (case s of (l, c, p, w) \<Rightarrow> service_inv svc (l, c, p) \<and> J w)"

lemma chain_inv_eq:
  "chain_inv svc J = (\<lambda>s. pred_option limiter_inv (fst s) \<and> pred_option (\<lambda>c. lru_inv (c_lru c)) (fst (snd s)) \<and>
     proxy_inv (Upstreams svc) (fst (snd (snd s))) \<and> J (snd (snd (snd s))))"
  by (auto simp: fun_eq_iff chain_inv_def service_inv_def)

lemma gateway_logger_inv:
  "router_inv cfg (snd (snd (snd s))) \<Longrightarrow> router_inv cfg (snd (snd (snd (map_world f s))))"
  "gateway_world (map_world f s) = f (gateway_world s)"
  by (auto simp: map_world_def router_inv_def gateway_world_def router_world_def split: prod.splits)

context request_contract
begin

lemma keeps_edge:
  assumes "\<And>l w. J w \<Longrightarrow> J (ge_log env l w)"
  shows "contract Q V (\<lambda>s. mem_inv (fst s) \<and> J (snd s)) (edgeRateLimit env (edge_endpoint e))"
  unfolding edgeRateLimit_def
  by (rule keeps_RateLimit) (simp_all add: keeps_edge_endpoint meml.allow_invar assms)

lemma keeps_dispatch:
  assumes log: "\<And>l w. J w \<Longrightarrow> J (ge_log env l w)"
    and chain: "\<And>svc. svc \<in> set (Services cfg) \<Longrightarrow>
      contract Q V (chain_inv svc J) (service_chain env cfg svc redisClient publicKey)"
  shows "contract Q V (\<lambda>st. router_inv cfg st \<and> J (router_world st)) (dispatch env cfg redisClient publicKey route)"
proof (rule contractI)
  fix h r st ops out st'
  assume Q: "Q r" and inv: "router_inv cfg st \<and> J (router_world st)"
    and eq: "dispatch env cfg redisClient publicKey route h r st = ((ops, out), st')"
  obtain edge svs w where st: "st = (edge, svs, w)" by (rule prod_cases3)
  from inv st have edge: "mem_inv edge" and svs: "list_all2 service_inv (Services cfg) svs" and J: "J w"
    by (simp_all add: router_inv_def router_world_def)
  show "(router_inv cfg st' \<and> J (router_world st')) \<and> (\<forall>v. out = Panicked v \<longrightarrow> V v)"
  proof (cases "\<exists>i. route r = Service i \<and> i < length svs")
    case True
    then obtain i where i: "route r = Service i" "i < length svs" by blast
    obtain l c p where sv: "svs ! i = (l, c, p)" by (rule prod_cases3)
    define svc where "svc = Services cfg ! i"
    from svs i have si: "chain_inv svc J (l, c, p, w)" and mem: "svc \<in> set (Services cfg)"
      using J by (auto simp: chain_inv_def svc_def list_all2_conv_all_nth sv [symmetric])
    obtain l' c' p' w' where ch: "service_chain env cfg svc redisClient publicKey h r (l, c, p, w) =
        ((ops, out), (l', c', p', w'))" and st': "st' = (edge, svs[i := (l', c', p')], w')"
      using eq st i sv by (auto simp: dispatch_def svc_def split: prod.splits)
    from contractD(1) [OF chain [OF mem] Q si ch] have si': "service_inv svc (l', c', p')" "J w'"
      by (simp_all add: chain_inv_def)
    with svs have "list_all2 service_inv (Services cfg) (svs[i := (l', c', p')])"
      using i by (auto simp: list_all2_conv_all_nth nth_list_update svc_def)
    moreover have "\<forall>v. out = Panicked v \<longrightarrow> V v"
      using contractD(2) [OF chain [OF mem] Q si, of h] ch by auto
    ultimately show ?thesis using st' edge si'(2) by (simp add: router_inv_def router_world_def)
  next
    case False
    then obtain edge' w' where e: "edgeRateLimit env (edge_endpoint (route r)) h r (edge, w) = ((ops, out), (edge', w'))"
      and st': "st' = (edge', svs, w')"
      using eq st by (auto simp: dispatch_def Let_def split: prod.splits endpoint.splits)
    note kept = contractD [OF keeps_edge [where env = env and J = J and e = "route r", OF log] Q, of "(edge, w)" h]
    show ?thesis using kept(1) [of ops out "(edge', w')"] kept(2) [of ops _ "(edge', w')"] e edge J svs st'
      by (auto simp: router_inv_def router_world_def)
  qed
qed

lemma keeps_gateway:
  fixes env :: "('k, 'e, 'b, 'g, 'w) gateway_env"
  assumes log: "\<And>l w. J w \<Longrightarrow> J (ge_log env l w)" and rand: "\<And>w. J w \<Longrightarrow> J (snd (ge_rand env w))"
    and "\<And>svc. svc \<in> set (Services cfg) \<Longrightarrow>
      contract Q V (chain_inv svc J) (service_chain env cfg svc redisClient publicKey)"
  shows "contract Q V (\<lambda>s. router_inv cfg (snd (snd (snd s))) \<and> J (gateway_world s))
    (gateway_handler env cfg redisClient publicKey route)"
proof -
  define K :: "('b, 'w) router_state \<Rightarrow> bool" where "K = (\<lambda>st. router_inv cfg st \<and> J (router_world st))"
  have inner: "contract Q V K (dispatch env cfg redisClient publicKey route)"
    unfolding K_def by (rule keeps_dispatch [OF log assms(3)])
  have logged: "K (snd (snd (snd s))) \<Longrightarrow> K (snd (snd (snd (map_world (ge_log env l) s))))" for l s
    using log gateway_logger_inv(1) [of cfg s] gateway_logger_inv(2) [of _ s] by (simp add: K_def gateway_world_def)
  have random: "K (snd (snd (snd s))) \<Longrightarrow> K (snd (snd (snd (snd (rand_Read env s)))))" for s
    using rand [of "gateway_world s"] gateway_logger_inv(1) [of cfg s] gateway_logger_inv(2) [of _ s]
    by (auto simp: K_def rand_Read_def gateway_world_def split: prod.split)
  have "contract Q V (\<lambda>s. K (snd (snd (snd s)))) (gateway_handler env cfg redisClient publicKey route)"
    unfolding gateway_handler_def Let_def
    by (intro keeps_Recoverer keeps_RequestID keeps_Logger keeps_MaxBody keeps_metrics [where I = "\<lambda>s. K (snd (snd s))"]
        keeps_Tracing [where I = "\<lambda>s. K (snd s)"] keeps_ConcurrencyLimit inner) (simp_all add: logged random)
  then show ?thesis by (simp add: K_def gateway_world_def)
qed

end

lemma guarded_chain:
  assumes "env_ok env cfg" "svc \<in> set (Services cfg)"
  shows "guarded (chain_inv svc (\<lambda>_. True)) (service_chain env cfg svc redisClient publicKey)"
proof -
  have "guarded (\<lambda>s. pred_option limiter_inv (fst s) \<and> pred_option (\<lambda>c. lru_inv (c_lru c)) (fst (snd s)) \<and>
      proxy_inv (Upstreams svc) (fst (snd (snd s)))) (service_chain env cfg svc redisClient publicKey)"
    by (rule aborts.keeps_service_chain,
        rule aborts.keeps_inner_chain [where I = "\<lambda>p _. proxy_inv (Upstreams svc) p"])
      (use assms in \<open>auto simp: env_ok_def intro: guarded_proxy\<close>)
  then show ?thesis by (simp add: chain_inv_eq)
qed

lemma guarded_dispatch:
  "env_ok env cfg \<Longrightarrow> guarded (router_inv cfg) (dispatch env cfg redisClient publicKey route)"
  using aborts.keeps_dispatch [where J = "\<lambda>_. True", OF _ guarded_chain] by simp

lemma guarded_gateway:
  "env_ok env cfg \<Longrightarrow>
   guarded (\<lambda>s. router_inv cfg (snd (snd (snd s)))) (gateway_handler env cfg redisClient publicKey route)"
  using aborts.keeps_gateway [where J = "\<lambda>_. True", OF _ _ guarded_chain] by simp

section \<open>What a successful start-up gives\<close>

lemma register_services_eq:
  "register_services su cfg publicKey redisClient svcs =
     (case find (\<lambda>svc. Auth svc \<and> publicKey = None) svcs of
        Some svc \<Rightarrow> Inl (AuthWithoutKey (Name svc))
      | None \<Rightarrow> Inr (map (new_service (su_heap su) (su_db su) cfg redisClient) svcs,
                     map (\<lambda>svc. (Name svc, Upstreams svc, snd (buildServiceHandler svc cfg))) svcs))"
  by (induction svcs) (auto split: option.splits)

definition load_key :: "('k, 'e, 'b) startup_env \<Rightarrow> GatewayConfig \<Rightarrow> 'e build_error + 'k option" where
  "load_key su cfg =
     (if JWTPublicKey cfg \<noteq> [] then
        map_sum id Some (loadPublicKey (su_ReadFile su) (su_pemDecode su) (su_ParsePKIX su) (JWTPublicKey cfg))
      else Inr None)"

definition probes_ok :: "('k, 'e, 'b) startup_env \<Rightarrow> GatewayConfig \<Rightarrow> bool" where
  "probes_ok su cfg \<longleftrightarrow>
     (\<forall>svc\<in>set (Services cfg).
        fst (Probe (su_probe su (Name svc)) (su_order su (Name svc)) (snd (buildServiceHandler svc cfg))) = None)"

abbreviation service_checks :: "GatewayConfig \<Rightarrow> (string \<times> string list \<times> checker) list" where
  "service_checks cfg \<equiv> map (\<lambda>svc. (Name svc, Upstreams svc, snd (buildServiceHandler svc cfg))) (Services cfg)"

lemma startup_checks_ok_iff: "(\<exists>cks. startup_checks su (service_checks cfg) = Some cks) \<longleftrightarrow> probes_ok su cfg"
  by (auto simp: startup_checks_def probes_ok_def Let_def list_ex_iff case_prod_beta)

lemma buildRouter_ok:
  "buildRouter su cfg = Inr ro \<longleftrightarrow>
     (\<exists>m publicKey redisClient cks.
        NewMetrics (su_meter su) = Inr m \<and> load_key su cfg = Inr publicKey \<and>
        buildRedisClient (su_ping su) cfg = Inr redisClient \<and>
        (\<forall>svc\<in>set (Services cfg). Auth svc \<longrightarrow> publicKey \<noteq> None) \<and>
        RegisterUpstreamHealth (su_meter su) = None \<and> startup_checks su (service_checks cfg) = Some cks \<and>
        ro = \<lparr>ro_key = publicKey, ro_redis = redisClient, ro_metrics = m,
              ro_edge = NewMemoryLimiter (su_heap su) [] 10 20 Minute (3 * Minute),
              ro_services = map (new_service (su_heap su) (su_db su) cfg redisClient) (Services cfg),
              ro_checks = cks\<rparr>)"
proof -
  have keys: "(\<forall>svc\<in>set (Services cfg). Auth svc \<longrightarrow> k \<noteq> None) \<longleftrightarrow>
      find (\<lambda>svc. Auth svc \<and> k = None) (Services cfg) = None" for k :: "'k option"
    by (auto simp: find_None_iff)
  show ?thesis
    unfolding buildRouter_def load_key_def [symmetric] register_services_eq keys
    by (auto split: sum.splits option.splits)
qed

lemma load_key_ok_iff:
  "(\<exists>k. load_key su cfg = Inr k) \<longleftrightarrow>
     (JWTPublicKey cfg \<noteq> [] \<longrightarrow>
        (\<exists>k. loadPublicKey (su_ReadFile su) (su_pemDecode su) (su_ParsePKIX su) (JWTPublicKey cfg) = Inr k))"
  by (cases "loadPublicKey (su_ReadFile su) (su_pemDecode su) (su_ParsePKIX su) (JWTPublicKey cfg)")
    (auto simp: load_key_def)

lemma load_key_some: "load_key su cfg = Inr k \<Longrightarrow> k \<noteq> None \<longleftrightarrow> JWTPublicKey cfg \<noteq> []"
  by (cases "loadPublicKey (su_ReadFile su) (su_pemDecode su) (su_ParsePKIX su) (JWTPublicKey cfg)")
    (auto simp: load_key_def split: if_splits)

lemma buildRedisClient_ok_iff:
  "(\<exists>c. buildRedisClient ping cfg = Inr c) \<longleftrightarrow>
     (\<forall>rl. RateLimit cfg = Some rl \<and> Backend rl = ''redis'' \<longrightarrow>
        ping (buildRedisOptions (Redis rl) (RedisPassword cfg)) = None)"
  by (auto simp: buildRedisClient_def Let_def split: option.splits)

lemma probes_ok_iff:
  assumes "\<forall>svc\<in>set (Services cfg). mset (su_order su (Name svc)) = mset (Upstreams svc)"
  shows "probes_ok su cfg \<longleftrightarrow>
    (\<forall>svc\<in>set (Services cfg). \<exists>u\<in>set (Upstreams svc).
       su_probe su (Name svc) (u @ hc_Path (HealthCheck cfg)) = Responded 200)"
proof -
  have "fst (Probe (su_probe su (Name svc)) (su_order su (Name svc)) (snd (buildServiceHandler svc cfg))) = None \<longleftrightarrow>
      (\<exists>u\<in>set (Upstreams svc). su_probe su (Name svc) (u @ hc_Path (HealthCheck cfg)) = Responded 200)"
    if "svc \<in> set (Services cfg)" for svc
    using that assms Probe_ok_iff [of "su_order su (Name svc)" "snd (buildServiceHandler svc cfg)"]
    by (simp add: buildServiceHandler_def NewChecker_def)
  then show ?thesis by (simp add: probes_ok_def)
qed

lemma limiter_of_spec_inv: "limiter_inv (limiter_of_spec heap db spec)"
  by (cases spec) (simp_all add: mem_inv_New)

lemma new_service_inv:
  assumes "length (Upstreams svc) < 2 ^ 64"
  shows "service_inv svc (new_service heap db cfg redisClient svc)"
  using new_handler_inv [OF assms]
  by (simp add: service_inv_def new_service_def option.pred_map comp_def case_prod_beta
      limiter_of_spec_inv lru_inv_New option.pred_True)

lemma buildRouter_parts:
  assumes "buildRouter su cfg = Inr ro"
  shows "ro_edge ro = NewMemoryLimiter (su_heap su) [] 10 20 Minute (3 * Minute)"
    and "ro_services ro = map (new_service (su_heap su) (su_db su) cfg (ro_redis ro)) (Services cfg)"
    and "buildRedisClient (su_ping su) cfg = Inr (ro_redis ro)"
    and "svc \<in> set (Services cfg) \<Longrightarrow> Auth svc \<Longrightarrow> ro_key ro \<noteq> None"
  using assms by (auto simp: buildRouter_ok)

lemma router_inv_initial:
  assumes "buildRouter su cfg = Inr ro" and "\<forall>svc\<in>set (Services cfg). length (Upstreams svc) < 2 ^ 64"
  shows "router_inv cfg (snd (snd (snd (initial_state ro w))))"
proof -
  note ro = buildRouter_parts [OF assms(1)]
  have "service_inv (Services cfg ! i) (new_service (su_heap su) (su_db su) cfg (ro_redis ro) (Services cfg ! i))"
    if "i < length (Services cfg)" for i
    using that assms(2) by (intro new_service_inv) simp
  then show ?thesis
    by (simp add: initial_state_def router_inv_def ro mem_inv_New list_all2_conv_all_nth)
qed

lemma serve_all_contract:
  assumes "contract Q V I H" and "\<forall>(f, h, r) \<in> set evs. Q r \<and> (\<forall>s. I s \<longrightarrow> I (f s))" and "I s"
  shows "I (snd (serve_all H evs s))"
  using assms(2,3)
proof (induction evs arbitrary: s)
  case (Cons ev evs)
  obtain f h r where ev: "ev = (f, h, r)" by (rule prod_cases3)
  with Cons.prems have fs: "I (f s)" and Q: "Q r" by auto
  obtain ops out s1 where H: "H h r (f s) = ((ops, out), s1)" by (metis prod.exhaust)
  from contractD(1) [OF assms(1) Q fs H] Cons.IH [of s1] Cons.prems(1) have "I (snd (serve_all H evs s1))" by simp
  with H ev show ?case by (simp add: case_prod_beta)
qed simp

lemma Recoverer_returns: "snd (fst (Recoverer logger next h r s)) = Returned_ok"
  by (auto simp: Recoverer_def split: prod.splits outcome.splits)

lemma serve_all_returns:
  assumes "\<And>h r s. snd (fst (H h r s)) = Returned_ok"
  shows "list_all (\<lambda>reply. snd reply = Returned_ok) (fst (serve_all H evs s))"
proof (induction evs arbitrary: s)
  case (Cons ev evs)
  obtain f h r where ev: "ev = (f, h, r)" by (rule prod_cases3)
  with Cons [of "snd (H h r (f s))"] assms [of h r "f s"] show ?case by (simp add: case_prod_beta)
qed simp

section \<open>An example gateway\<close>

definition demo_gateway :: "(nat, unit, unit, unit, unit) gateway_env" where
  "demo_gateway =
     \<lparr>ge_parser = example_parser, ge_lim_new = (\<lambda>_ _. ()), ge_lim_allow = (\<lambda>_ _. (True, ())),
      ge_redis = (\<lambda>_. \<lparr>env_server_ms = 0, env_now_ms = 0, env_net = NetOk\<rparr>), ge_log = (\<lambda>_ w. w),
      ge_sha256 = zero_sha, ge_flight = (\<lambda>_. None), ge_detect = (\<lambda>_. ''text/plain''),
      ge_gzip = identity_codec, ge_rand = (\<lambda>w. (Inr (replicate 16 0), w)), ge_RoutePattern = (\<lambda>_. []),
      ge_Extract = (\<lambda>c _. c), ge_StartSpan = (\<lambda>c. c), ge_proxy = demo_env (Inl other_error)\<rparr>"

definition demo_startup :: "(nat, unit, unit) startup_env" where
  "demo_startup =
     \<lparr>su_meter = \<lparr>Int64Counter = (\<lambda>_. None), Float64Histogram = (\<lambda>_ _. None),
        Int64ObservableGauge = (\<lambda>_. None), RegisterCallback = None\<rparr>,
      su_ReadFile = (\<lambda>_. Inr ''pem''), su_pemDecode = (\<lambda>d. Some d), su_ParsePKIX = (\<lambda>_. Inr (RSAKey 7)),
      su_ping = (\<lambda>_. None), su_heap = (\<lambda>_. ()), su_db = Map.empty, su_probe = (\<lambda>_ _. Responded 200),
      su_order = (\<lambda>_. [''http://o:1'']), su_poll = (\<lambda>_ _. Responded 200)\<rparr>"

definition demo_config :: GatewayConfig where
  "demo_config = example_config\<lparr>JWTPublicKey := ''jwt.pem''\<rparr>"

lemma demo_services: "Services demo_config = [example_service]" "Upstreams example_service = [''http://o:1'']"
    "Auth example_service" "Name example_service = ''orders''"
  by (simp_all add: demo_config_def example_config_def example_service_def)

lemma demo_order:
  "\<forall>svc\<in>set (Services demo_config). mset (su_order demo_startup (Name svc)) = mset (Upstreams svc)"
  by (simp add: demo_services demo_startup_def)

lemma demo_starts: "\<exists>ro. buildRouter demo_startup demo_config = Inr ro"
proof -
  have "load_key demo_startup demo_config = Inr (Some 7)"
    by (simp add: load_key_def loadPublicKey_def demo_startup_def demo_config_def)
  moreover have "buildRedisClient (su_ping demo_startup) demo_config = Inr None"
    by (simp add: buildRedisClient_def demo_config_def example_config_def)
  moreover have "probes_ok demo_startup demo_config"
    by (simp add: probes_ok_iff [OF demo_order] demo_services) (simp add: demo_startup_def)
  ultimately show ?thesis
    unfolding buildRouter_ok
    by (simp add: startup_checks_ok_iff [symmetric])
      (auto simp: NewMetrics_def RegisterUpstreamHealth_def demo_startup_def)
qed

lemma demo_env_ok: "env_ok demo_gateway demo_config"
  by (simp add: env_ok_def demo_gateway_def demo_env_def)

section \<open>Properties\<close>



text \<open>
  C4: the gateway stays well formed. Whatever requests arrive and whatever happens in the world
  between them, every request is answered, and in every service the breakers of all configured
  upstreams exist, the cache keeps its structure and its bounds, and the limiter its map; so a
  handler panics only to abort a response whose upstream broke off.
\<close>
theorem gateway_stays_well_formed:
  fixes w :: 'w and ro :: "('k, 'b) router"
  assumes "buildRouter su cfg = Inr ro" and "env_ok env cfg"
    and "\<forall>svc\<in>set (Services cfg). length (Upstreams svc) < 2 ^ 64"
    and "\<forall>(f, h, r)\<in>set evs. \<exists>g. f = map_world g"
    and "serve_all (gateway_handler env cfg (ro_redis ro) (ro_key ro) route) evs (initial_state ro w) =
           (replies, (m, spans, n, st))"
  shows "list_all (\<lambda>reply. snd reply = Returned_ok) replies \<and> router_inv cfg st \<and>
    (\<forall>h r v. snd (fst (dispatch env cfg (ro_redis ro) (ro_key ro) route h r st)) = Panicked v \<longrightarrow> is_abort v)"
proof -
  let ?H = "gateway_handler env cfg (ro_redis ro) (ro_key ro) route"
  have "\<forall>(f, h, r)\<in>set evs. \<forall>s. router_inv cfg (snd (snd (snd s))) \<longrightarrow> router_inv cfg (snd (snd (snd (f s))))"
  proof clarify
    fix f h r and s :: "('b, 'w) gateway_state"
    assume "(f, h, r) \<in> set evs" and inv: "router_inv cfg (snd (snd (snd s)))"
    with assms(4) obtain g where "f = map_world g" by blast
    then show "router_inv cfg (snd (snd (snd (f s))))" using gateway_logger_inv(1) [OF inv] by simp
  qed
  then have "\<forall>(f, h, r)\<in>set evs. True \<and>
      (\<forall>s. router_inv cfg (snd (snd (snd s))) \<longrightarrow> router_inv cfg (snd (snd (snd (f s)))))" by simp
  from serve_all_contract [OF guarded_gateway [OF assms(2)] this router_inv_initial [OF assms(1,3)]]
  have inv: "router_inv cfg st" using assms(5) by (metis snd_conv)
  have "list_all (\<lambda>reply. snd reply = Returned_ok) (fst (serve_all ?H evs (initial_state ro w)))"
    by (rule serve_all_returns) (simp add: gateway_handler_def Let_def Recoverer_returns)
  moreover have "\<forall>h r v. snd (fst (dispatch env cfg (ro_redis ro) (ro_key ro) route h r st)) = Panicked v \<longrightarrow> is_abort v"
    using guarded_dispatch [OF assms(2)] inv unfolding contract_def by blast
  ultimately show ?thesis using inv assms(5) by simp
qed

theorem gateway_stays_well_formed_witness:
  "\<exists>ro replies m spans n st. buildRouter demo_startup demo_config = Inr ro \<and>
     serve_all (gateway_handler demo_gateway demo_config (ro_redis ro) (ro_key ro) (\<lambda>_. Service 0))
       [(map_world id, empty_header, bearer ''t7'')] (initial_state ro ()) = (replies, (m, spans, n, st)) \<and>
     list_all (\<lambda>reply. snd reply = Returned_ok) replies \<and> router_inv demo_config st"
proof -
  obtain ro where ro: "buildRouter demo_startup demo_config = Inr ro" using demo_starts by blast
  let ?evs = "[(map_world id, empty_header, bearer ''t7'')]"
  obtain replies m spans n st where run: "serve_all (gateway_handler demo_gateway demo_config (ro_redis ro)
      (ro_key ro) (\<lambda>_. Service 0)) ?evs (initial_state ro ()) = (replies, (m, spans, n, st))"
    by (rule prod_cases5)
  have ok: "list_all (\<lambda>reply. snd reply = Returned_ok) replies" "router_inv demo_config st"
    using gateway_stays_well_formed [OF ro demo_env_ok _ _ run] by (auto simp: demo_services)
  show ?thesis by (intro exI conjI) (rule ro run ok)+
qed

lemma service_chain_auth_cases:
  assumes "Auth svc"
  obtains (refused) st msg where "st = 401 \<or> st = 403"
      "service_chain env cfg svc redisClient (Some key) h r s = ((writeJSON st [(''error'', msg)], Returned_ok), s)"
  | (admitted) ts t c where "header_Get (r_Header r) ''Authorization'' = ''Bearer '' @ ts"
      "parseAndValidateToken (ge_parser env) ts key = Inr t" "extractClaims t = Inr c"
      "RequiredRoles svc = [] \<or> set (RequiredRoles svc) \<inter> set (Roles c) \<noteq> {}"
      "service_chain env cfg svc redisClient (Some key) h r s =
         inner_chain env cfg svc redisClient h (r\<lparr>r_ctx := newClaimsContext (r_ctx r) c\<rparr>) s"
proof -
  define H where "H = inner_chain env cfg svc redisClient"
  have eq: "service_chain env cfg svc redisClient (Some key) h r s = JWTAuth (ge_parser env) key H h r s"
    using assms by (simp add: service_chain_inner H_def)
  show thesis
  proof (cases rule: JWTAuth_cases [of "ge_parser env" key H h r s])
    case (refused msg)
    then show thesis using that(1) [of 401 msg] eq by (simp add: unauthorized_def)
  next
    case (admitted ts t c)
    show thesis
    proof (cases "RequiredRoles svc = [] \<or> set (RequiredRoles svc) \<inter> set (Roles c) \<noteq> {}")
      case True
      with admitted eq show thesis using that(2) [of ts t c] by (simp add: H_def)
    next
      case False
      then have "H h (r\<lparr>r_ctx := newClaimsContext (r_ctx r) c\<rparr>) s =
          ((writeJSON 403 [(''error'', ''forbidden'')], Returned_ok), s)"
        by (simp add: H_def inner_chain_def Let_def RequireAnyRole_spec newClaimsContext_def)
      with admitted eq show thesis using that(1) [of 403 "''forbidden''"] by simp
    qed
  qed
qed

text \<open>
  C3: protected services. In a running gateway, a request to a service with authentication
  either carries a bearer token that verifies under the loaded public key and whose claims
  hold one of the required roles, if there are any; or it is answered 401 or 403 and nothing
  behind the check is touched: no limiter, no cache, no upstream, of any service.
\<close>
theorem protected_service_needs_token:
  assumes "buildRouter su cfg = Inr ro" and "jwt_sound verify (ge_parser env)"
    and "i < length (Services cfg)" "Auth (Services cfg ! i)" "route r = Service i"
    and "length svs = length (Services cfg)"
  shows "\<exists>key. ro_key ro = Some key \<and>
    ((\<exists>ts t c. header_Get (r_Header r) ''Authorization'' = ''Bearer '' @ ts \<and> verify key ts \<and>
        parseAndValidateToken (ge_parser env) ts key = Inr t \<and> extractClaims t = Inr c \<and>
        (RequiredRoles (Services cfg ! i) = [] \<or> set (RequiredRoles (Services cfg ! i)) \<inter> set (Roles c) \<noteq> {})) \<or>
     (\<exists>st msg. (st = 401 \<or> st = 403) \<and>
        dispatch env cfg (ro_redis ro) (ro_key ro) route h r (edge, svs, w) =
          ((writeJSON st [(''error'', msg)], Returned_ok), (edge, svs, w))))"
proof -
  obtain key where key: "ro_key ro = Some key"
    using buildRouter_parts(4) [OF assms(1), of "Services cfg ! i"] assms(3,4) by auto
  obtain l c p where sv: "svs ! i = (l, c, p)" by (rule prod_cases3)
  show ?thesis
    using assms(4)
  proof (cases rule: service_chain_auth_cases [where env = env and cfg = cfg and redisClient = "ro_redis ro"
        and key = key and h = h and r = r and s = "(l, c, p, w)"])
    case (refused st msg)
    have "dispatch env cfg (ro_redis ro) (ro_key ro) route h r (edge, svs, w) =
        ((writeJSON st [(''error'', msg)], Returned_ok), (edge, svs, w))"
      using assms(3,5,6) key sv refused(2) list_update_id [of svs i] by (simp add: dispatch_def)
    with refused(1) key show ?thesis by blast
  next
    case (admitted ts t c)
    with parse_sound [OF assms(2) admitted(2)] key show ?thesis by blast
  qed
qed

theorem protected_service_needs_token_witness:
  "\<exists>ro st msg. buildRouter demo_startup demo_config = Inr ro \<and> (st = 401 \<or> st = 403) \<and>
     dispatch demo_gateway demo_config (ro_redis ro) (ro_key ro) (\<lambda>_. Service 0) empty_header (bearer ''t8'')
       (ro_edge ro, ro_services ro, ()) =
     ((writeJSON st [(''error'', msg)], Returned_ok), (ro_edge ro, ro_services ro, ()))"
proof -
  obtain ro where ro: "buildRouter demo_startup demo_config = Inr ro" using demo_starts by blast
  have sound: "jwt_sound (\<lambda>k ts. k = 7 \<and> ts = ''t7'') (ge_parser demo_gateway)"
    by (simp add: demo_gateway_def example_parser_sound)
  have "length (ro_services ro) = length (Services demo_config)"
    by (simp add: buildRouter_parts(2) [OF ro])
  from protected_service_needs_token [OF ro sound, of 0 "\<lambda>_. Service 0" "bearer ''t8''" "ro_services ro"
      empty_header "ro_edge ro" "()"] this
  have "\<exists>st msg. (st = 401 \<or> st = 403) \<and>
     dispatch demo_gateway demo_config (ro_redis ro) (ro_key ro) (\<lambda>_. Service 0) empty_header (bearer ''t8'')
       (ro_edge ro, ro_services ro, ()) =
     ((writeJSON st [(''error'', msg)], Returned_ok), (ro_edge ro, ro_services ro, ()))"
    by (auto simp: demo_services bearer_header)
  with ro show ?thesis by blast
qed

definition service_prefix :: "ServiceConfig \<Rightarrow> string" where
  "service_prefix svc = ''svc:'' @ Name svc @ '':''"

lemma redis_spec_prefix:
  "buildServiceLimiter svc cfg (Some opts) = Some (spec, k) \<Longrightarrow>
   limiter_of_spec heap db spec = RedisLimiter rl db' \<Longrightarrow> rl_prefix rl = service_prefix svc"
  by (auto simp: buildServiceLimiter_def NewRedisLimiter_def Let_def service_prefix_def split: option.splits)

text \<open>
  When services share a bucket in Redis. The keys of two services with different names meet
  exactly if one name followed by a colon starts the other: the prefix \<^verbatim>\<open>svc:name:\<close> separates
  services whose names contain no colon, and lets, for services \<^verbatim>\<open>a\<close> and \<^verbatim>\<open>a:b\<close>, the client
  \<^verbatim>\<open>b:x\<close> of the first spend the tokens of client \<^verbatim>\<open>x\<close> of the second.
\<close>
lemma services_share_redis_key_iff:
  assumes "buildServiceLimiter s1 cfg (Some opts) = Some (spec1, f1)"
    and "buildServiceLimiter s2 cfg (Some opts) = Some (spec2, f2)"
    and "limiter_of_spec heap db spec1 = RedisLimiter rl1 db1"
    and "limiter_of_spec heap db spec2 = RedisLimiter rl2 db2"
  shows "(\<exists>k1 k2. rl_prefix rl1 @ k1 = rl_prefix rl2 @ k2) \<longleftrightarrow>
    prefix (Name s1 @ '':'') (Name s2 @ '':'') \<or> prefix (Name s2 @ '':'') (Name s1 @ '':'')"
proof -
  have "(\<exists>k1 k2. p1 @ k1 = p2 @ k2) \<longleftrightarrow> prefix p1 p2 \<or> prefix p2 p1" for p1 p2 :: string
    by (metis prefix_def prefix_same_cases append.right_neutral)
  note iff = this
  show ?thesis
    unfolding redis_spec_prefix [OF assms(1,3)] redis_spec_prefix [OF assms(2,4)] iff service_prefix_def
    by (simp only: same_prefix_prefix)
qed

end
