(* ===== verification/Otel.thy ===== *)
theory Otel
  imports Go_Strings "HOL-Library.Multiset"
begin

text \<open>
  \<^verbatim>\<open>internal/otel\<close>: the set-up and shutdown of the OpenTelemetry providers, and the slog handler
  that fans records out.

  The exporters and the SDK are parameters: what their constructors and \<^verbatim>\<open>Shutdown\<close> methods
  return. A provider is identified by its kind, the URL of its exporter and its interval; the
  state says which providers are running and which are registered globally.
\<close>

section \<open>The providers\<close>

datatype provider = TracerP string duration | MeterP string duration | LoggerP string duration

record SDK =
  TracerProvider :: provider
  MeterProvider :: provider
  LoggerProvider :: provider

record Intervals =
  iv_MetricInterval :: duration
  iv_TraceBatchTimeout :: duration
  iv_LogBatchTimeout :: duration

record otel_state =
  running :: "provider list"
  global_tracer :: "provider option"
  global_meter :: "provider option"
  global_propagator :: bool

record 'e otel_env =
  Merge :: "'e option"
  New_trace :: "string \<Rightarrow> 'e option"
  New_metric :: "string \<Rightarrow> 'e option"
  New_log :: "string \<Rightarrow> 'e option"
  runtime_Start :: "'e option"
  provider_Shutdown :: "provider \<Rightarrow> 'e option"

definition TrimRight :: "string \<Rightarrow> char \<Rightarrow> string" where
  "TrimRight s c = rev (dropWhile (\<lambda>x. x = c) (rev s))"

definition errors_Join :: "'e option list \<Rightarrow> 'e list option" where
  "errors_Join errs = (case concat (map (\<lambda>e. case e of None \<Rightarrow> [] | Some x \<Rightarrow> [x]) errs) of [] \<Rightarrow> None | es \<Rightarrow> Some es)"

definition start_provider :: "provider \<Rightarrow> otel_state \<Rightarrow> otel_state" where
  "start_provider p st = st\<lparr>running := running st @ [p]\<rparr>"

definition stop_provider :: "'e otel_env \<Rightarrow> provider \<Rightarrow> otel_state \<Rightarrow> 'e option \<times> otel_state" where
  "stop_provider env p st = (provider_Shutdown env p, st\<lparr>running := remove1 p (running st)\<rparr>)"

definition Shutdown :: "'e otel_env \<Rightarrow> SDK \<Rightarrow> otel_state \<Rightarrow> 'e list option \<times> otel_state" where
  "Shutdown env sdk st =
     (let (e1, st) = stop_provider env (TracerProvider sdk) st;
          (e2, st) = stop_provider env (MeterProvider sdk) st;
          (e3, st) = stop_provider env (LoggerProvider sdk) st
      in (errors_Join [e1, e2, e3], st))"

text \<open>The joined error of a failed start carries the errors of the shutdown that follows it.\<close>

definition Setup ::
  "'e otel_env \<Rightarrow> string \<Rightarrow> Intervals \<Rightarrow> otel_state \<Rightarrow> ('e list + SDK) \<times> otel_state" where
  "Setup env endpoint iv st =
     (case Merge env of
        Some err \<Rightarrow> (Inl [err], st)
      | None \<Rightarrow>
          let base = TrimRight endpoint CHR ''/''
          in case New_trace env (base @ ''/v1/traces'') of
               Some err \<Rightarrow> (Inl [err], st)
             | None \<Rightarrow>
                 let tp = TracerP (base @ ''/v1/traces'') (iv_TraceBatchTimeout iv);
                     st = start_provider tp st
                 in case New_metric env (base @ ''/v1/metrics'') of
                      Some err \<Rightarrow> (Inl [err], snd (stop_provider env tp st))
                    | None \<Rightarrow>
                        let mp = MeterP (base @ ''/v1/metrics'') (iv_MetricInterval iv);
                            st = start_provider mp st
                        in case New_log env (base @ ''/v1/logs'') of
                             Some err \<Rightarrow>
                               (Inl [err], snd (stop_provider env mp (snd (stop_provider env tp st))))
                           | None \<Rightarrow>
                               let lp = LoggerP (base @ ''/v1/logs'') (iv_LogBatchTimeout iv);
                                   st = start_provider lp st;
                                   st = st\<lparr>global_tracer := Some tp, global_meter := Some mp,
                                           global_propagator := True\<rparr>;
                                   sdk = \<lparr>TracerProvider = tp, MeterProvider = mp, LoggerProvider = lp\<rparr>
                               in case runtime_Start env of
                                    Some err \<Rightarrow>
                                      (case Shutdown env sdk st of
                                         (errs, st) \<Rightarrow> (Inl (err # (case errs of None \<Rightarrow> [] | Some es \<Rightarrow> es)), st))
                                  | None \<Rightarrow> (Inr sdk, st))"

section \<open>The fan-out handler\<close>

text \<open>
  The methods of the wrapped handlers, of type \<open>'h\<close>. \<open>handler_Handle h r\<close> is what the handler
  returns for a record; the model of \<open>Handle\<close> also lists the handlers that were given the record.
\<close>

record ('h, 'lvl, 'r, 'a, 'e) slog_api =
  handler_Enabled :: "'h \<Rightarrow> 'lvl \<Rightarrow> bool"
  handler_Handle :: "'h \<Rightarrow> 'r \<Rightarrow> 'e option"
  handler_WithAttrs :: "'a list \<Rightarrow> 'h \<Rightarrow> 'h"
  handler_WithGroup :: "string \<Rightarrow> 'h \<Rightarrow> 'h"
  record_Level :: "'r \<Rightarrow> 'lvl"

record 'h fanoutHandler =
  handlers :: "'h list"

fun any_enabled :: "('h, 'lvl, 'r, 'a, 'e) slog_api \<Rightarrow> 'lvl \<Rightarrow> 'h list \<Rightarrow> bool" where
  "any_enabled api level [] = False"
| "any_enabled api level (h # hs) = (if handler_Enabled api h level then True else any_enabled api level hs)"

definition fanout_Enabled :: "('h, 'lvl, 'r, 'a, 'e) slog_api \<Rightarrow> 'h fanoutHandler \<Rightarrow> 'lvl \<Rightarrow> bool" where
  "fanout_Enabled api f level = any_enabled api level (handlers f)"

fun handle_each :: "('h, 'lvl, 'r, 'a, 'e) slog_api \<Rightarrow> 'r \<Rightarrow> 'h list \<Rightarrow> 'h list \<times> 'e option" where
  "handle_each api r [] = ([], None)"
| "handle_each api r (h # hs) =
     (if handler_Enabled api h (record_Level api r) then
        (case handler_Handle api h r of
           Some err \<Rightarrow> ([h], Some err)
         | None \<Rightarrow> (case handle_each api r hs of (given, err) \<Rightarrow> (h # given, err)))
      else handle_each api r hs)"

definition fanout_Handle ::
  "('h, 'lvl, 'r, 'a, 'e) slog_api \<Rightarrow> 'h fanoutHandler \<Rightarrow> 'r \<Rightarrow> 'h list \<times> 'e option" where
  "fanout_Handle api f r = handle_each api r (handlers f)"

definition fanout_WithAttrs ::
  "('h, 'lvl, 'r, 'a, 'e) slog_api \<Rightarrow> 'h fanoutHandler \<Rightarrow> 'a list \<Rightarrow> 'h fanoutHandler" where
  "fanout_WithAttrs api f attrs = \<lparr>handlers = map (handler_WithAttrs api attrs) (handlers f)\<rparr>"

definition fanout_WithGroup ::
  "('h, 'lvl, 'r, 'a, 'e) slog_api \<Rightarrow> 'h fanoutHandler \<Rightarrow> string \<Rightarrow> 'h fanoutHandler" where
  "fanout_WithGroup api f name = \<lparr>handlers = map (handler_WithGroup api name) (handlers f)\<rparr>"

text \<open>The logger of the gateway: JSON to the writer, and the bridge to the SDK's log provider.\<close>

datatype 'o slog_handler = JSONHandler 'o | OtelHandler string provider

definition NewLogger :: "SDK \<Rightarrow> 'o \<Rightarrow> 'o slog_handler fanoutHandler" where
  "NewLogger sdk w = \<lparr>handlers = [JSONHandler w, OtelHandler ''go-api-gateway'' (LoggerProvider sdk)]\<rparr>"

section \<open>Laws\<close>

lemma TrimRight_no_suffix: "TrimRight s c = [] \<or> last (TrimRight s c) \<noteq> c"
proof (cases "dropWhile (\<lambda>x. x = c) (rev s)")
  case (Cons x xs)
  with hd_dropWhile [of "\<lambda>x. x = c" "rev s"] have "x \<noteq> c" by simp
  with Cons show ?thesis by (simp add: TrimRight_def)
qed (simp add: TrimRight_def)

lemma running_start [simp]: "running (start_provider p st) = running st @ [p]"
  by (simp add: start_provider_def)

lemma running_stop [simp]:
  "mset (running (snd (stop_provider env p st))) = mset (running st) - {#p#}"
  by (simp add: stop_provider_def del: remove1_append)

lemma running_Shutdown [simp]:
  "mset (running (snd (Shutdown env sdk st))) =
     mset (running st) - {#TracerProvider sdk#} - {#MeterProvider sdk#} - {#LoggerProvider sdk#}"
  by (simp add: Shutdown_def case_prod_beta)

lemma handle_each_spec:
  "handle_each api r hs =
     (let enabled = filter (\<lambda>h. handler_Enabled api h (record_Level api r)) hs
      in case dropWhile (\<lambda>h. handler_Handle api h r = None) enabled of
           [] \<Rightarrow> (enabled, None)
         | h # _ \<Rightarrow> (takeWhile (\<lambda>h. handler_Handle api h r = None) enabled @ [h], handler_Handle api h r))"
  by (induction hs) (auto simp: Let_def simp del: dropWhile_eq_Nil_conv split: option.splits list.splits)

text \<open>The handler says it is enabled exactly when a record of that level would reach someone.\<close>

lemma fanout_Enabled_iff: "fanout_Enabled api f (record_Level api r) \<longleftrightarrow> fst (fanout_Handle api f r) \<noteq> []"
proof -
  have "any_enabled api (record_Level api r) hs \<longleftrightarrow> fst (handle_each api r hs) \<noteq> []" for hs
    by (induction hs) (auto simp: case_prod_beta split: option.splits)
  then show ?thesis by (simp add: fanout_Enabled_def fanout_Handle_def)
qed

lemma Setup_outcome:
  "case Setup env endpoint iv st of
     (Inr sdk, st') \<Rightarrow>
       (let base = TrimRight endpoint CHR ''/'' in
          TracerProvider sdk = TracerP (base @ ''/v1/traces'') (iv_TraceBatchTimeout iv) \<and>
          MeterProvider sdk = MeterP (base @ ''/v1/metrics'') (iv_MetricInterval iv) \<and>
          LoggerProvider sdk = LoggerP (base @ ''/v1/logs'') (iv_LogBatchTimeout iv)) \<and>
       running st' = running st @ [TracerProvider sdk, MeterProvider sdk, LoggerProvider sdk] \<and>
       global_tracer st' = Some (TracerProvider sdk) \<and> global_meter st' = Some (MeterProvider sdk) \<and>
       mset (running (snd (Shutdown env sdk st'))) = mset (running st)
   | (Inl errs, st') \<Rightarrow> errs \<noteq> [] \<and> mset (running st') = mset (running st)"
  by (cases "Merge env"; cases "New_trace env (TrimRight endpoint CHR ''/'' @ ''/v1/traces'')";
      cases "New_metric env (TrimRight endpoint CHR ''/'' @ ''/v1/metrics'')";
      cases "New_log env (TrimRight endpoint CHR ''/'' @ ''/v1/logs'')"; cases "runtime_Start env")
    (simp_all add: Setup_def Let_def case_prod_beta)

section \<open>Properties\<close>

text \<open>
  C33: the telemetry is set up completely or not at all. If \<open>Setup\<close> succeeds, the three providers
  run and export to the three paths below the endpoint without its trailing slashes, at the
  configured intervals, and shutting the SDK down stops exactly these. If it fails, it reports
  an error and every provider it had started has been stopped.
\<close>
theorem Setup_all_or_nothing:
  "case Setup env endpoint iv st of
     (Inr sdk, st') \<Rightarrow>
       (let base = TrimRight endpoint CHR ''/'' in
          TracerProvider sdk = TracerP (base @ ''/v1/traces'') (iv_TraceBatchTimeout iv) \<and>
          MeterProvider sdk = MeterP (base @ ''/v1/metrics'') (iv_MetricInterval iv) \<and>
          LoggerProvider sdk = LoggerP (base @ ''/v1/logs'') (iv_LogBatchTimeout iv)) \<and>
       running st' = running st @ [TracerProvider sdk, MeterProvider sdk, LoggerProvider sdk] \<and>
       global_tracer st' = Some (TracerProvider sdk) \<and> global_meter st' = Some (MeterProvider sdk) \<and>
       mset (running (snd (Shutdown env sdk st'))) = mset (running st)
   | (Inl errs, st') \<Rightarrow> errs \<noteq> [] \<and> mset (running st') = mset (running st)"
  by (rule Setup_outcome)

text \<open>
  The fan-out stops at the first error. A record goes, in order, to the handlers enabled for
  its level, up to and including the first that fails, whose error is returned; the handlers
  after that one do not get the record. Without an error every enabled handler gets it once.
\<close>
lemma fanout_Handle_stops_at_first_error:
  "fanout_Handle api f r =
     (let enabled = filter (\<lambda>h. handler_Enabled api h (record_Level api r)) (handlers f)
      in case dropWhile (\<lambda>h. handler_Handle api h r = None) enabled of
           [] \<Rightarrow> (enabled, None)
         | h # _ \<Rightarrow> (takeWhile (\<lambda>h. handler_Handle api h r = None) enabled @ [h], handler_Handle api h r))"
  by (simp add: fanout_Handle_def handle_each_spec)

end
