(* ===== verification/Gateway_Main.thy ===== *)
theory Gateway_Main
  imports Gateway_Laws Otel
begin

text \<open>
  \<^verbatim>\<open>cmd/gateway/main.go\<close>: the run of the gateway process, from the configuration file to the
  exit. The result is the exit code together with the state of the telemetry providers when
  the process ends; a provider still running then has not been flushed. \<^verbatim>\<open>os.Exit\<close> runs no
  deferred calls.
\<close>

record http_server =
  hs_Addr :: string
  hs_ReadHeaderTimeout :: duration
  hs_ReadTimeout :: duration
  hs_WriteTimeout :: duration
  hs_IdleTimeout :: duration
  hs_MaxHeaderBytes :: int

text \<open>\<open>itoa\<close> is the decimal representation of an integer.\<close>

definition new_server :: "(int \<Rightarrow> string) \<Rightarrow> GatewayConfig \<Rightarrow> http_server" where
  "new_server itoa cfg =
     \<lparr>hs_Addr = '':'' @ itoa (Port cfg), hs_ReadHeaderTimeout = 5 * Second, hs_ReadTimeout = 30 * Second,
      hs_WriteTimeout = 30 * Second, hs_IdleTimeout = 120 * Second, hs_MaxHeaderBytes = MaxHeaderBytes cfg\<rparr>"

text \<open>
  How serving ends: \<^verbatim>\<open>ListenAndServe\<close> fails with an error other than \<^verbatim>\<open>ErrServerClosed\<close>, or a
  signal arrives and the server shuts down; an error of that shutdown is only logged.
\<close>

datatype serve_end = ListenFailed | Signalled

definition telemetry_intervals :: "GatewayConfig \<Rightarrow> Intervals" where
  "telemetry_intervals cfg =
     \<lparr>iv_MetricInterval = MetricInterval (Telemetry cfg),
      iv_TraceBatchTimeout = TraceBatchTimeout (Telemetry cfg),
      iv_LogBatchTimeout = LogBatchTimeout (Telemetry cfg)\<rparr>"

definition main ::
  "(string \<Rightarrow> 'x + string) \<Rightarrow> (string \<Rightarrow> 'x + GatewayConfig) \<Rightarrow> (string \<Rightarrow> string) \<Rightarrow> string \<Rightarrow> 'e otel_env \<Rightarrow> ('k, 'e, 'b) startup_env \<Rightarrow> (http_server \<Rightarrow> serve_end) \<Rightarrow>
   (int \<Rightarrow> string) \<Rightarrow> otel_state \<Rightarrow> int \<times> otel_state" where
  "main readFile unmarshal getenv configPath oenv su serve itoa st =
     (case Load readFile unmarshal getenv configPath of
        Inl err \<Rightarrow> (1, st)
      | Inr cfg \<Rightarrow>
          (case (if OTelEndpoint cfg \<noteq> [] then
                   (case Setup oenv (OTelEndpoint cfg) (telemetry_intervals cfg) st of
                      (Inl errs, st) \<Rightarrow> (Inl errs, st)
                    | (Inr sdk, st) \<Rightarrow> (Inr (Some sdk), st))
                 else (Inr None, st)) of
             (Inl errs, st) \<Rightarrow> (1, st)
           | (Inr sdk, st) \<Rightarrow>
               (case buildRouter su cfg of
                  Inl err \<Rightarrow> (1, st)
                | Inr router \<Rightarrow>
                    (case serve (new_server itoa cfg) of
                       ListenFailed \<Rightarrow> (1, st)
                     | Signalled \<Rightarrow>
                         (0, case sdk of None \<Rightarrow> st | Some sdk \<Rightarrow> snd (Shutdown oenv sdk st))))))"

section \<open>Properties\<close>

text \<open>
  C34: when the process ends without flushing its telemetry. The exit code is 0 exactly after an
  orderly shutdown. Providers are left running exactly when telemetry was set up and then the
  router could not be built or the server could not listen: \<^verbatim>\<open>os.Exit\<close> skips the deferred
  shutdown, so the log record that names the reason, and all buffered telemetry, is lost.
\<close>
theorem main_exit:
  assumes "main readFile unmarshal getenv path oenv su serve itoa st = (code, st')"
  shows "(code = 0 \<longleftrightarrow>
       (\<exists>cfg router. Load readFile unmarshal getenv path = Inr cfg \<and>
          (OTelEndpoint cfg = [] \<or> (\<exists>sdk. fst (Setup oenv (OTelEndpoint cfg) (telemetry_intervals cfg) st) = Inr sdk)) \<and>
          buildRouter su cfg = Inr router \<and> serve (new_server itoa cfg) = Signalled)) \<and>
    (mset (running st') \<noteq> mset (running st) \<longleftrightarrow>
       (\<exists>cfg sdk. Load readFile unmarshal getenv path = Inr cfg \<and> OTelEndpoint cfg \<noteq> [] \<and>
          fst (Setup oenv (OTelEndpoint cfg) (telemetry_intervals cfg) st) = Inr sdk \<and>
          ((\<exists>err. buildRouter su cfg = Inl err) \<or> serve (new_server itoa cfg) = ListenFailed)))"
proof (cases "Load readFile unmarshal getenv path")
  case (Inl err)
  with assms show ?thesis by (auto simp: main_def)
next
  case (Inr cfg)
  obtain res st1 where set: "Setup oenv (OTelEndpoint cfg) (telemetry_intervals cfg) st = (res, st1)" by fastforce
  have spec: "case res of
      Inr sdk \<Rightarrow> running st1 = running st @ [TracerProvider sdk, MeterProvider sdk, LoggerProvider sdk]
    | Inl errs \<Rightarrow> mset (running st1) = mset (running st)"
    using Setup_outcome [where env = oenv and endpoint = "OTelEndpoint cfg" and iv = "telemetry_intervals cfg" and st = st] set
    by (auto split: sum.splits)
  show ?thesis
    using assms Inr set spec
    by (cases "OTelEndpoint cfg = []"; cases res; cases "buildRouter su cfg"; cases "serve (new_server itoa cfg)")
      (auto simp: main_def)
qed

definition demo_otel :: "unit otel_env" where
  "demo_otel = \<lparr>Merge = None, New_trace = (\<lambda>_. None), New_metric = (\<lambda>_. None), New_log = (\<lambda>_. None),
     runtime_Start = None, provider_Shutdown = (\<lambda>_. None)\<rparr>"

definition no_telemetry :: otel_state where
  "no_telemetry = \<lparr>running = [], global_tracer = None, global_meter = None, global_propagator = False\<rparr>"

theorem main_exit_witness:
  "mset (running (snd (main (\<lambda>p. Inr p :: unit + string) (\<lambda>_. Inr example_config) (\<lambda>_. ''env'') ''gateway.yaml''
     demo_otel (demo_startup\<lparr>su_ReadFile := \<lambda>_. Inl ()\<rparr>) (\<lambda>_. Signalled) (\<lambda>_. ''8080'') no_telemetry))) \<noteq>
   mset (running no_telemetry)"
proof -
  let ?su = "demo_startup\<lparr>su_ReadFile := \<lambda>_. Inl ()\<rparr>"
  have cfg: "OTelEndpoint loaded_example = ''env''" "JWTPublicKey loaded_example = ''env''"
    by (simp_all add: loaded_example_def norm_config_def)
  have "buildRouter ?su loaded_example = Inl (KeyError ())"
    by (simp add: buildRouter_def NewMetrics_def loadPublicKey_def demo_startup_def cfg)
  moreover have "\<exists>sdk. fst (Setup demo_otel (OTelEndpoint loaded_example) (telemetry_intervals loaded_example)
      no_telemetry) = Inr sdk"
    by (simp add: Setup_def demo_otel_def Let_def)
  ultimately show ?thesis
    using main_exit [of "\<lambda>p. Inr p :: unit + string" "\<lambda>_. Inr example_config" "\<lambda>_. ''env''" "''gateway.yaml''" demo_otel ?su
        "\<lambda>_. Signalled" "\<lambda>_. ''8080''" no_telemetry, OF prod.collapse [symmetric]] example_Load cfg
    by simp
qed

end
