(* ===== verification/Go_Json.thy ===== *)
theory Go_Json
  imports Http_Model
begin

text \<open>
  The part of \<^verbatim>\<open>encoding/json\<close> and \<^verbatim>\<open>strconv\<close> with which the sample upstreams print their
  answers: integers, strings, arrays, and objects with their fields in a given order.
\<close>

definition digit :: "nat \<Rightarrow> char" where
  "digit n = char_of (48 + n)"

fun nat_dec :: "nat \<Rightarrow> string" where
  "nat_dec n = (if n < 10 then [digit n] else nat_dec (n div 10) @ [digit (n mod 10)])"

declare nat_dec.simps [simp del]

definition Itoa :: "int \<Rightarrow> string" where
  "Itoa i = (if i < 0 then CHR ''-'' # nat_dec (nat (- i)) else nat_dec (nat i))"

datatype jval = JInt int | JStr string | JArr "jval list" | JObj "(string \<times> jval) list"

fun json_encode :: "jval \<Rightarrow> string" where
  "json_encode (JInt i) = Itoa i"
| "json_encode (JStr s) = json_string s"
| "json_encode (JArr vs) = ''['' @ Join (map json_encode vs) '','' @ '']''"
| "json_encode (JObj fs) = ''{'' @ Join (map (\<lambda>(k, v). json_string k @ '':'' @ json_encode v) fs) '','' @ ''}''"

section \<open>Laws\<close>

lemma digit_value_digit: "n < 10 \<Longrightarrow> digit_value (digit n) = Some (int n)"
  by (simp add: digit_value_def digit_def)

lemma parse_digits_append:
  "parse_digits (ds @ [c]) acc =
     (case parse_digits ds acc of None \<Rightarrow> None | Some m \<Rightarrow> map_option (\<lambda>d. 10 * m + d) (digit_value c))"
  by (induction ds arbitrary: acc) (auto split: option.splits)

lemma parse_nat_dec: "parse_digits (nat_dec n) 0 = Some (int n)"
proof (induction n rule: less_induct)
  case (less n)
  show ?case
  proof (cases "n < 10")
    case True
    then show ?thesis by (simp add: nat_dec.simps [of n] digit_value_digit)
  next
    case False
    then have "n div 10 < n" by simp
    moreover have "10 * int (n div 10) + int (n mod 10) = int n" by (simp add: zdiv_int zmod_int)
    ultimately show ?thesis
      using less False by (simp add: nat_dec.simps [of n] parse_digits_append digit_value_digit)
  qed
qed

lemma nat_dec_first: "\<exists>d ds. nat_dec n = digit d # ds \<and> d < 10"
proof (induction n rule: less_induct)
  case (less n)
  show ?case
  proof (cases "n < 10")
    case True
    then show ?thesis by (auto simp: nat_dec.simps [of n])
  next
    case False
    then have "n div 10 < n" by simp
    with less obtain d ds where "nat_dec (n div 10) = digit d # ds" "d < 10" by blast
    with False show ?thesis by (auto simp: nat_dec.simps [of n])
  qed
qed

lemma digit_no_sign: "d < 10 \<Longrightarrow> digit d \<noteq> CHR ''-'' \<and> digit d \<noteq> CHR ''+''"
  by (auto simp: digit_def dest: arg_cong [where f = "of_char :: char \<Rightarrow> nat"])

text \<open>Printing a 64-bit integer and parsing it gives the integer back.\<close>

lemma Atoi_Itoa: "is_i64 i \<Longrightarrow> Atoi (Itoa i) = Some i"
proof -
  assume i: "is_i64 i"
  obtain d ds where pos: "nat_dec (nat \<bar>i\<bar>) = digit d # ds" "d < 10" using nat_dec_first by blast
  have "parse_digits (digit d # ds) 0 = Some \<bar>i\<bar>" using parse_nat_dec [of "nat \<bar>i\<bar>"] pos by simp
  then show ?thesis
    using i pos digit_no_sign [of d] by (cases "i < 0") (auto simp: Itoa_def Atoi_def Let_def)
qed

end
