(* ===== verification/Upstream_Services.thy ===== *)
theory Upstream_Services
  imports Go_Json "HOL-Library.Multiset"
begin

text \<open>
  The two sample services behind the gateway, \<^verbatim>\<open>upstream/orders\<close> and \<^verbatim>\<open>upstream/catalog\<close>.

  The database is a record with the two tables, on which the SQL statements of the handlers
  are written out with the column types and constraints of the migrations. What the driver
  and the connection may do to a statement is a parameter: \<open>fault\<close> is the error of a statement
  that fails for reasons of its own, \<open>scan_fault\<close> the error of reading a row, and \<open>order_rows\<close>
  and \<open>product_rows\<close> the order in which the rows of a table come, since the statements name
  none. The JSON decoder,
  the parser of UUIDs and the format of time stamps are parameters as well.
\<close>

section \<open>Data\<close>

record order =
  o_ID :: int
  o_UserID :: string
  o_ProductID :: int
  o_Quantity :: int
  o_TotalCents :: int
  o_CreatedAt :: time

record orderCreate =
  oc_ProductID :: int
  oc_Quantity :: int

record product =
  p_ID :: int
  p_Name :: string
  p_Description :: string
  p_PriceCents :: int
  p_CreatedAt :: time

record database =
  db_products :: "product list"
  db_orders :: "order list"
  db_next_id :: int
  db_now :: time

record 'e db_env =
  fault :: "'e option"
  scan_fault :: "int \<Rightarrow> 'e option"
  order_rows :: "order list \<Rightarrow> order list"
  product_rows :: "product list \<Rightarrow> product list"
  rows_Err :: "'e option"
  parse_uuid :: "string \<Rightarrow> string option"
  parse_bigint :: "string \<Rightarrow> int option"
  format_time :: "time \<Rightarrow> string"
  decode_order :: "string \<Rightarrow> 'e + orderCreate"

definition maxInt4 :: int where
  "maxInt4 = 2 ^ 31 - 1"

text \<open>What \<^verbatim>\<open>QueryRowContext(...).Scan\<close> returns.\<close>

datatype 'a row_result = ErrNoRows | RowError | Row 'a

definition writeJSON_value :: "int \<Rightarrow> jval \<Rightarrow> wop list" where
  "writeJSON_value status msg =
     [HeaderSet ''Content-Type'' ''application/json'', WriteHeader status, Write (json_encode msg @ [CHR 0x0A])]"

definition error_json :: "int \<Rightarrow> string \<Rightarrow> reply" where
  "error_json status msg = (writeJSON_value status (JObj [(''error'', JStr msg)]), Returned_ok)"

definition upstream_healthz :: "'s handler" where
  "upstream_healthz h r s = (([WriteHeader 200], Returned_ok), s)"

text \<open>The loop over \<^verbatim>\<open>rows.Next\<close>: it ends at the first row that cannot be scanned.\<close>

fun scan_rows :: "('a \<Rightarrow> 'e option) \<Rightarrow> 'a list \<Rightarrow> 'e + 'a list" where
  "scan_rows scan [] = Inr []"
| "scan_rows scan (x # xs) =
     (case scan x of
        Some err \<Rightarrow> Inl err
      | None \<Rightarrow> (case scan_rows scan xs of Inl err \<Rightarrow> Inl err | Inr ys \<Rightarrow> Inr (x # ys)))"

section \<open>Orders\<close>

definition order_json :: "'e db_env \<Rightarrow> order \<Rightarrow> jval" where
  "order_json env o' =
     JObj [(''id'', JInt (o_ID o')), (''user_id'', JStr (o_UserID o')), (''product_id'', JInt (o_ProductID o')),
           (''quantity'', JInt (o_Quantity o')), (''total_cents'', JInt (o_TotalCents o')),
           (''created_at'', JStr (format_time env (o_CreatedAt o')))]"

text \<open>
  A statement whose parameter for a UUID column is not a UUID fails; \<open>parse_uuid\<close> gives the
  canonical text under which a UUID is stored and read back.
\<close>

definition select_orders :: "'e db_env \<Rightarrow> string \<Rightarrow> database \<Rightarrow> order list option" where
  "select_orders env user db =
     (if fault env \<noteq> None then None
      else
        case parse_uuid env user of
          None \<Rightarrow> None
        | Some u \<Rightarrow> Some (order_rows env (filter (\<lambda>o'. o_UserID o' = u) (db_orders db))))"

definition get_orders :: "'e db_env \<Rightarrow> database handler" where
  "get_orders env h r db =
     (case select_orders env (header_Get (r_Header r) ''X-User'') db of
        None \<Rightarrow> (error_json 500 ''internal error'', db)
      | Some rows \<Rightarrow>
          (case scan_rows (\<lambda>o'. scan_fault env (o_ID o')) rows of
             Inl err \<Rightarrow> (error_json 500 ''internal error'', db)
           | Inr orders \<Rightarrow>
               (case rows_Err env of
                  Some err \<Rightarrow> (error_json 500 ''internal error'', db)
                | None \<Rightarrow>
                    ((writeJSON_value 200 (JObj [(''orders'', JArr (map (order_json env) orders))]), Returned_ok), db))))"

text \<open>The struct tags of \<^verbatim>\<open>orderCreate\<close>: the first field and tag that fails.\<close>

definition validate_order :: "orderCreate \<Rightarrow> (string \<times> string) option" where
  "validate_order p =
     (if oc_ProductID p = 0 then Some (''ProductID'', ''required'')
      else if \<not> oc_ProductID p > 0 then Some (''ProductID'', ''gt'')
      else if oc_Quantity p = 0 then Some (''Quantity'', ''required'')
      else if \<not> oc_Quantity p \<ge> 1 then Some (''Quantity'', ''gte'')
      else if \<not> oc_Quantity p \<le> 100 then Some (''Quantity'', ''lte'')
      else None)"

definition find_product :: "int \<Rightarrow> database \<Rightarrow> product option" where
  "find_product i db = find (\<lambda>p. p_ID p = i) (db_products db)"

text \<open>
  \<^verbatim>\<open>INSERT INTO orders ... SELECT ... RETURNING id, total_cents\<close>: no row if the product does not
  exist, an error if the total does not fit the column.
\<close>

definition insert_order ::
  "'e db_env \<Rightarrow> string \<Rightarrow> int \<Rightarrow> int \<Rightarrow> database \<Rightarrow> (int \<times> int) row_result \<times> database" where
  "insert_order env user pid qty db =
     (if fault env \<noteq> None then (RowError, db)
      else
        case parse_uuid env user of
          None \<Rightarrow> (RowError, db)
        | Some u \<Rightarrow>
            (case find_product pid db of
               None \<Rightarrow> (ErrNoRows, db)
             | Some p \<Rightarrow>
                 let total = p_PriceCents p * qty
                 in if total > maxInt4 then (RowError, db)
                    else
                      let o' = \<lparr>o_ID = db_next_id db, o_UserID = u, o_ProductID = pid, o_Quantity = qty,
                                o_TotalCents = total, o_CreatedAt = db_now db\<rparr>
                      in (Row (o_ID o', o_TotalCents o'),
                          db\<lparr>db_orders := db_orders db @ [o'], db_next_id := db_next_id db + 1\<rparr>)))"

definition post_orders :: "'e db_env \<Rightarrow> database handler" where
  "post_orders env h r db =
     (case decode_order env (r_Body r) of
        Inl err \<Rightarrow> (error_json 400 ''invalid request'', db)
      | Inr payload \<Rightarrow>
          (case validate_order payload of
             Some (field, tag) \<Rightarrow> (error_json 400 (''invalid field '' @ field @ '': '' @ tag), db)
           | None \<Rightarrow>
               (case insert_order env (header_Get (r_Header r) ''X-User'') (oc_ProductID payload) (oc_Quantity payload) db of
                  (ErrNoRows, db) \<Rightarrow> (error_json 400 ''product not found'', db)
                | (RowError, db) \<Rightarrow> (error_json 500 ''internal error'', db)
                | (Row (i, totalCents), db) \<Rightarrow>
                    ((writeJSON_value 201 (JObj [(''id'', JInt i), (''total_cents'', JInt totalCents)]), Returned_ok), db))))"

section \<open>Catalog\<close>

definition product_json :: "'e db_env \<Rightarrow> product \<Rightarrow> jval" where
  "product_json env p =
     JObj [(''id'', JInt (p_ID p)), (''name'', JStr (p_Name p)), (''description'', JStr (p_Description p)),
           (''price_cents'', JInt (p_PriceCents p)), (''created_at'', JStr (format_time env (p_CreatedAt p)))]"

definition get_products :: "'e db_env \<Rightarrow> database handler" where
  "get_products env h r db =
     (if fault env \<noteq> None then (error_json 500 ''internal error'', db)
      else
        case scan_rows (\<lambda>p. scan_fault env (p_ID p)) (product_rows env (db_products db)) of
          Inl err \<Rightarrow> (error_json 500 ''internal error'', db)
        | Inr products \<Rightarrow>
            (case rows_Err env of
               Some err \<Rightarrow> (error_json 500 ''internal error'', db)
             | None \<Rightarrow>
                 ((writeJSON_value 200 (JObj [(''products'', JArr (map (product_json env) products))]), Returned_ok), db)))"

definition select_product :: "'e db_env \<Rightarrow> string \<Rightarrow> database \<Rightarrow> product row_result" where
  "select_product env i db =
     (if fault env \<noteq> None then RowError
      else
        case parse_bigint env i of
          None \<Rightarrow> RowError
        | Some n \<Rightarrow>
            (case find_product n db of
               None \<Rightarrow> ErrNoRows
             | Some p \<Rightarrow> if scan_fault env (p_ID p) \<noteq> None then RowError else Row p))"

text \<open>\<open>pathValue\<close> is \<^verbatim>\<open>r.PathValue("id")\<close>.\<close>

definition get_product :: "'e db_env \<Rightarrow> (request \<Rightarrow> string) \<Rightarrow> database handler" where
  "get_product env pathValue h r db =
     (case select_product env (pathValue r) db of
        ErrNoRows \<Rightarrow> (error_json 404 ''product not found'', db)
      | RowError \<Rightarrow> (error_json 500 ''internal error'', db)
      | Row p \<Rightarrow> ((writeJSON_value 200 (JObj [(''product'', product_json env p)]), Returned_ok), db))"

section \<open>Routing\<close>

text \<open>
  The patterns registered with \<^verbatim>\<open>http.ServeMux\<close>; a \<^verbatim>\<open>GET\<close> pattern also matches \<^verbatim>\<open>HEAD\<close>. \<open>other\<close>
  is what the mux itself answers when no pattern matches: not found, method not allowed, or a
  redirect to the cleaned path.
\<close>

abbreviation is_GET :: "request \<Rightarrow> bool" where
  "is_GET r \<equiv> r_Method r = ''GET'' \<or> r_Method r = ''HEAD''"

definition orders_mux :: "'e db_env \<Rightarrow> (request \<Rightarrow> reply) \<Rightarrow> database handler" where
  "orders_mux env other h r db =
     (if r_Path r = ''/healthz'' \<and> is_GET r then upstream_healthz h r db
      else if r_Path r = ''/orders'' \<and> is_GET r then get_orders env h r db
      else if r_Path r = ''/orders'' \<and> r_Method r = ''POST'' then post_orders env h r db
      else (other r, db))"

definition product_id :: "request \<Rightarrow> string" where
  "product_id r = drop (length ''/products/'') (r_Path r)"

text \<open>A path segment that a wildcard matches; the mux redirects from paths with dot segments.\<close>

abbreviation segment :: "string \<Rightarrow> bool" where
  "segment i \<equiv> i \<notin> {[], ''.'', ''..''} \<and> CHR ''/'' \<notin> set i"

definition catalog_mux :: "'e db_env \<Rightarrow> (request \<Rightarrow> reply) \<Rightarrow> database handler" where
  "catalog_mux env other h r db =
     (if r_Path r = ''/healthz'' \<and> is_GET r then upstream_healthz h r db
      else if r_Path r = ''/products'' \<and> is_GET r then get_products env h r db
      else if HasPrefix (r_Path r) ''/products/'' \<and> segment (product_id r) \<and> is_GET r
      then get_product env product_id h r db
      else (other r, db))"

section \<open>The connection pool and the process\<close>

text \<open>
  Both services carry the same \<^verbatim>\<open>openDB\<close> and \<^verbatim>\<open>warmPool\<close>. The \<open>k\<close>-th call of \<^verbatim>\<open>db.Conn\<close>
  returns an error or a connection. \<^verbatim>\<open>make\<close> with a negative capacity panics.
\<close>

record pool =
  pl_MaxOpen :: int
  pl_MaxIdle :: int
  pl_ConnMaxLifetime :: duration
  pl_ConnMaxIdleTime :: duration
  pl_idle :: nat

datatype 'e open_error =
    InvalidMaxConns string
  | InvalidLifetime string
  | OpenFailed 'e
  | ConnFailed 'e
  | MakesliceOutOfRange

fun open_conns :: "(nat \<Rightarrow> 'e option) \<Rightarrow> nat \<Rightarrow> nat \<Rightarrow> 'e option \<times> nat" where
  "open_conns conn 0 opened = (None, opened)"
| "open_conns conn (Suc n) opened =
     (case conn opened of
        Some err \<Rightarrow> (Some err, opened)
      | None \<Rightarrow> open_conns conn n (Suc opened))"

text \<open>The deferred loop closes what was opened: these connections become idle, as far as they fit.\<close>

definition warmPool :: "(nat \<Rightarrow> 'e option) \<Rightarrow> pool \<Rightarrow> int \<Rightarrow> 'e open_error option \<times> pool" where
  "warmPool conn db n =
     (if n < 0 then (Some MakesliceOutOfRange, db)
      else
        case open_conns conn (nat n) 0 of
          (err, opened) \<Rightarrow>
            (map_option ConnFailed err, db\<lparr>pl_idle := min opened (nat (pl_MaxIdle db))\<rparr>))"

definition openDB ::
  "(string \<Rightarrow> string) \<Rightarrow> (string \<Rightarrow> duration option) \<Rightarrow> (string \<Rightarrow> 'e option) \<Rightarrow> (nat \<Rightarrow> 'e option) \<Rightarrow> string \<Rightarrow>
   'e open_error + pool" where
  "openDB getenv ParseDuration sql_Open conn dsn =
     (case (let v = getenv ''DB_MAX_CONNS'' in if v \<noteq> [] then Atoi v else Some 50) of
        None \<Rightarrow> Inl (InvalidMaxConns (getenv ''DB_MAX_CONNS''))
      | Some maxConns \<Rightarrow>
          (case (let v = getenv ''DB_CONN_MAX_LIFETIME'' in if v \<noteq> [] then ParseDuration v else Some (30 * Minute)) of
             None \<Rightarrow> Inl (InvalidLifetime (getenv ''DB_CONN_MAX_LIFETIME''))
           | Some connMaxLifetime \<Rightarrow>
               (case sql_Open dsn of
                  Some err \<Rightarrow> Inl (OpenFailed err)
                | None \<Rightarrow>
                    let db = \<lparr>pl_MaxOpen = maxConns, pl_MaxIdle = maxConns, pl_ConnMaxLifetime = connMaxLifetime,
                              pl_ConnMaxIdleTime = 0, pl_idle = 0\<rparr>
                    in case warmPool conn db maxConns of
                         (Some err, db) \<Rightarrow> Inl err
                       | (None, db) \<Rightarrow> Inr db)))"

definition catalog_warmPool :: "(nat \<Rightarrow> 'e option) \<Rightarrow> pool \<Rightarrow> int \<Rightarrow> 'e open_error option \<times> pool" where
  "catalog_warmPool = warmPool"

definition catalog_openDB ::
  "(string \<Rightarrow> string) \<Rightarrow> (string \<Rightarrow> duration option) \<Rightarrow> (string \<Rightarrow> 'e option) \<Rightarrow> (nat \<Rightarrow> 'e option) \<Rightarrow> string \<Rightarrow>
   'e open_error + pool" where
  "catalog_openDB = openDB"

text \<open>
  The run of a service: its exit code, and whether the deferred \<^verbatim>\<open>db.Close\<close> has run. Serving the
  handler ends
  with an error of \<^verbatim>\<open>ListenAndServe\<close>, on which \<^verbatim>\<open>os.Exit\<close> skips deferred calls, or with a signal.
  An unrecovered panic exits with code 2.
\<close>

datatype upstream_serve = ServeFailed | Interrupted

definition orders_main ::
  "'f db_env \<Rightarrow> (request \<Rightarrow> reply) \<Rightarrow> (string \<Rightarrow> string) \<Rightarrow> (string \<Rightarrow> duration option) \<Rightarrow> (string \<Rightarrow> 'e option) \<Rightarrow> (nat \<Rightarrow> 'e option) \<Rightarrow>
   (string \<Rightarrow> database handler \<Rightarrow> upstream_serve) \<Rightarrow> int \<times> bool" where
  "orders_main denv other getenv ParseDuration sql_Open conn serve =
     (case openDB getenv ParseDuration sql_Open conn (getenv ''DATABASE_URL'') of
        Inl MakesliceOutOfRange \<Rightarrow> (2, False)
      | Inl err \<Rightarrow> (1, False)
      | Inr db \<Rightarrow>
          let port = getenv ''PORT'';
              port = (if port = [] then ''8080'' else port)
          in case serve ('':'' @ port) (orders_mux denv other) of
               ServeFailed \<Rightarrow> (1, False)
             | Interrupted \<Rightarrow> (0, True))"

definition catalog_main ::
  "'f db_env \<Rightarrow> (request \<Rightarrow> reply) \<Rightarrow> (string \<Rightarrow> string) \<Rightarrow> (string \<Rightarrow> duration option) \<Rightarrow> (string \<Rightarrow> 'e option) \<Rightarrow> (nat \<Rightarrow> 'e option) \<Rightarrow>
   (string \<Rightarrow> database handler \<Rightarrow> upstream_serve) \<Rightarrow> int \<times> bool" where
  "catalog_main denv other getenv ParseDuration sql_Open conn serve =
     (case catalog_openDB getenv ParseDuration sql_Open conn (getenv ''DATABASE_URL'') of
        Inl MakesliceOutOfRange \<Rightarrow> (2, False)
      | Inl err \<Rightarrow> (1, False)
      | Inr db \<Rightarrow>
          let port = getenv ''PORT'';
              port = (if port = [] then ''8080'' else port)
          in case serve ('':'' @ port) (catalog_mux denv other) of
               ServeFailed \<Rightarrow> (1, False)
             | Interrupted \<Rightarrow> (0, True))"

section \<open>Laws\<close>

lemma scan_rows_eq:
  "scan_rows scan xs =
     (case find (\<lambda>x. scan x \<noteq> None) xs of Some x \<Rightarrow> Inl (the (scan x)) | None \<Rightarrow> Inr xs)"
  by (induction xs) (auto split: option.splits)

lemma scan_rows_ok: "\<forall>x \<in> set xs. scan x = None \<Longrightarrow> scan_rows scan xs = Inr xs"
  by (induction xs) auto

lemma open_conns_ok:
  "open_conns conn n opened = (None, m) \<longleftrightarrow> (\<forall>k < n. conn (opened + k) = None) \<and> m = opened + n"
proof (induction n arbitrary: opened)
  case (Suc n)
  have "(\<forall>k < Suc n. conn (opened + k) = None) \<longleftrightarrow> conn opened = None \<and> (\<forall>k < n. conn (Suc opened + k) = None)"
    by (simp add: All_less_Suc2)
  with Suc [of "Suc opened"] show ?case by (auto split: option.splits)
qed auto

text \<open>
  The pool a service starts with: its limits are the configured number of connections, and
  after the warm-up that many connections are idle.
\<close>

abbreviation max_conns :: "(string \<Rightarrow> string) \<Rightarrow> int option" where
  "max_conns getenv \<equiv> (if getenv ''DB_MAX_CONNS'' \<noteq> [] then Atoi (getenv ''DB_MAX_CONNS'') else Some 50)"

lemma openDB_warm:
  "openDB getenv ParseDuration sql_Open conn dsn = Inr db \<Longrightarrow>
   max_conns getenv = Some (pl_MaxOpen db) \<and> 0 \<le> pl_MaxOpen db \<and> pl_MaxIdle db = pl_MaxOpen db \<and>
   int (pl_idle db) = pl_MaxOpen db \<and> (\<forall>k < nat (pl_MaxOpen db). conn k = None)"
  by (auto simp: openDB_def warmPool_def Let_def open_conns_ok
      split: option.splits if_splits prod.splits)

text \<open>A negative number of connections is accepted by the parser and makes the warm-up panic.\<close>

lemma openDB_negative_panics:
  "max_conns getenv = Some n \<Longrightarrow> n < 0 \<Longrightarrow> getenv ''DB_CONN_MAX_LIFETIME'' = [] \<Longrightarrow> sql_Open dsn = None \<Longrightarrow>
   openDB getenv ParseDuration sql_Open conn dsn = Inl MakesliceOutOfRange"
  by (simp add: openDB_def warmPool_def Let_def)

lemma validate_order_ok:
  "validate_order p = None \<longleftrightarrow> oc_ProductID p > 0 \<and> 1 \<le> oc_Quantity p \<and> oc_Quantity p \<le> 100"
  by (auto simp: validate_order_def)

text \<open>The condition under which an order can be placed, and the order that is then stored.\<close>

definition orderable :: "'e db_env \<Rightarrow> request \<Rightarrow> database \<Rightarrow> orderCreate \<Rightarrow> string \<Rightarrow> product \<Rightarrow> bool" where
  "orderable env r db payload u p \<longleftrightarrow>
     decode_order env (r_Body r) = Inr payload \<and>
     oc_ProductID payload > 0 \<and> 1 \<le> oc_Quantity payload \<and> oc_Quantity payload \<le> 100 \<and>
     fault env = None \<and> parse_uuid env (header_Get (r_Header r) ''X-User'') = Some u \<and>
     find_product (oc_ProductID payload) db = Some p \<and> p_PriceCents p * oc_Quantity payload \<le> maxInt4"

definition new_order :: "orderCreate \<Rightarrow> string \<Rightarrow> product \<Rightarrow> database \<Rightarrow> order" where
  "new_order payload u p db =
     \<lparr>o_ID = db_next_id db, o_UserID = u, o_ProductID = oc_ProductID payload, o_Quantity = oc_Quantity payload,
      o_TotalCents = p_PriceCents p * oc_Quantity payload, o_CreatedAt = db_now db\<rparr>"

lemma post_orders_stores:
  "orderable env r db payload u p \<Longrightarrow>
   post_orders env h r db =
     ((writeJSON_value 201 (JObj [(''id'', JInt (db_next_id db)),
        (''total_cents'', JInt (p_PriceCents p * oc_Quantity payload))]), Returned_ok),
      db\<lparr>db_orders := db_orders db @ [new_order payload u p db], db_next_id := db_next_id db + 1\<rparr>)"
  using validate_order_ok [of payload]
  by (simp add: orderable_def post_orders_def insert_order_def new_order_def Let_def)

lemma insert_order_refuses:
  assumes "\<not> (fault env = None \<and> (\<exists>u p. parse_uuid env user = Some u \<and> find_product pid db = Some p \<and>
      p_PriceCents p * qty \<le> maxInt4))"
  shows "insert_order env user pid qty db = (ErrNoRows, db) \<or> insert_order env user pid qty db = (RowError, db)"
  using assms
  by (cases "fault env"; cases "parse_uuid env user"; cases "find_product pid db")
    (simp_all add: insert_order_def Let_def)

lemma post_orders_refuses:
  assumes "\<not> (\<exists>payload u p. orderable env r db payload u p)"
  shows "\<exists>st msg. (st = 400 \<or> st = 500) \<and> post_orders env h r db = (error_json st msg, db)"
proof (cases "decode_order env (r_Body r)")
  case (Inl err)
  then show ?thesis by (auto simp: post_orders_def)
next
  case (Inr payload)
  show ?thesis
  proof (cases "validate_order payload")
    case (Some ft)
    with Inr show ?thesis by (cases ft) (auto simp: post_orders_def)
  next
    case None
    let ?ins = "insert_order env (header_Get (r_Header r) ''X-User'') (oc_ProductID payload) (oc_Quantity payload) db"
    from assms Inr None have "?ins = (ErrNoRows, db) \<or> ?ins = (RowError, db)"
      by (intro insert_order_refuses) (simp add: orderable_def validate_order_ok)
    with Inr None have "post_orders env h r db = (error_json 400 ''product not found'', db) \<or>
        post_orders env h r db = (error_json 500 ''internal error'', db)"
      by (auto simp: post_orders_def)
    then show ?thesis by blast
  qed
qed

section \<open>Properties\<close>


text \<open>
  C28: orders are private to their user. What \<^verbatim>\<open>GET /orders\<close> lists is, if the database works, the
  orders of the requesting user and no others, each as often as it is stored; so an order just
  placed is added to its user's list and changes no other user's list.
\<close>
theorem get_orders_lists_own_orders:
  assumes "post_orders env h r db = ((writeJSON_value 201 body, Returned_ok), db')"
    and "rows_Err env = None" and "\<forall>i. scan_fault env i = None"
    and "\<forall>xs. mset (order_rows env xs) = mset xs"
    and "parse_uuid env (header_Get (r_Header r) ''X-User'') = Some u"
    and "parse_uuid env (header_Get (r_Header r') ''X-User'') = Some u'"
  shows "\<exists>new rows. o_UserID new = u \<and>
    mset rows = mset (filter (\<lambda>x. o_UserID x = u') (db_orders db)) + (if u' = u then {#new#} else {#}) \<and>
    fst (get_orders env h' r' db') =
      (writeJSON_value 200 (JObj [(''orders'', JArr (map (order_json env) rows))]), Returned_ok)"
proof -
  have "\<exists>payload p. orderable env r db payload u p"
  proof (rule ccontr)
    assume "\<nexists>payload p. orderable env r db payload u p"
    with assms(5) have "\<nexists>payload v p. orderable env r db payload v p" by (auto simp: orderable_def)
    from post_orders_refuses [OF this, of h] assms(1) show False
      by (auto simp: error_json_def writeJSON_value_def)
  qed
  then obtain payload p where ok: "orderable env r db payload u p" by blast
  let ?new = "new_order payload u p db"
  let ?rows = "order_rows env (filter (\<lambda>x. o_UserID x = u') (db_orders db'))"
  have db': "db' = db\<lparr>db_orders := db_orders db @ [?new], db_next_id := db_next_id db + 1\<rparr>"
    using post_orders_stores [OF ok, of h] assms(1) by simp
  have "o_UserID ?new = u" by (simp add: new_order_def)
  moreover have "scan_rows (\<lambda>x. scan_fault env (o_ID x)) xs = Inr xs" for xs :: "order list"
    using assms(3) by (simp add: scan_rows_ok)
  moreover have "fault env = None" using ok by (simp add: orderable_def)
  ultimately show ?thesis
    by (intro exI [of _ ?new] exI [of _ ?rows]) (auto simp: get_orders_def select_orders_def assms(2,4,6) db')
qed

definition example_db_env :: "unit db_env" where
  "example_db_env =
     \<lparr>fault = None, scan_fault = (\<lambda>_. None), order_rows = rev, product_rows = rev, rows_Err = None,
      parse_uuid = (\<lambda>u. if length u = 2 then Some u else None), parse_bigint = (\<lambda>_. None), format_time = (\<lambda>_. []),
      decode_order = (\<lambda>_. Inr \<lparr>oc_ProductID = 1, oc_Quantity = 2\<rparr>)\<rparr>"

definition example_db :: database where
  "example_db = \<lparr>db_products = [\<lparr>p_ID = 1, p_Name = ''p'', p_Description = [], p_PriceCents = 150, p_CreatedAt = 0\<rparr>],
     db_orders = [], db_next_id = 1, db_now = 10\<rparr>"

definition order_by :: "string \<Rightarrow> request" where
  "order_by user = (simple_request ''POST'' ''/orders'' [])\<lparr>r_Header := empty_header(''X-User'' := [user])\<rparr>"

lemma order_by_user: "header_Get (r_Header (order_by user)) ''X-User'' = user"
proof -
  have "canonical_key ''X-User'' = ''X-User''" by code_simp
  then show ?thesis by (simp add: order_by_def header_Get_def)
qed

lemma example_orderable:
  "orderable example_db_env (order_by ''u1'') example_db \<lparr>oc_ProductID = 1, oc_Quantity = 2\<rparr> ''u1'' (hd (db_products example_db))"
  by (simp add: orderable_def order_by_user) (simp add: example_db_env_def example_db_def find_product_def maxInt4_def)

theorem get_orders_lists_own_orders_witness:
  "\<exists>new rows. o_UserID new = ''u1'' \<and> mset rows = {#new#} \<and>
     fst (get_orders example_db_env empty_header (order_by ''u1'')
       (snd (post_orders example_db_env empty_header (order_by ''u1'') example_db))) =
     (writeJSON_value 200 (JObj [(''orders'', JArr (map (order_json example_db_env) rows))]), Returned_ok)"
  using get_orders_lists_own_orders [of example_db_env empty_header "order_by ''u1''" example_db _ _ "''u1''"
      "order_by ''u1''" "''u1''" empty_header, OF post_orders_stores [OF example_orderable]]
  by (simp add: post_orders_stores [OF example_orderable] order_by_user)
    (simp add: example_db_env_def example_db_def)

end
