(* ===== verification/Deployment.thy ===== *)
theory Deployment
  imports Gateway_Laws Upstream_Services
begin

text \<open>
  The gateway in front of its sample services: the transport of the proxies carries a request to
  the handler of the upstream, and its answer back. What spans both sides of that connection is
  shown here: whose orders are stored through the gateway, and what the failures of an upstream
  do to its breaker.
\<close>

section \<open>The transport\<close>

text \<open>
  A round trip to a server with handler \<open>H\<close>. If the handler panics the connection breaks: before
  the status was sent this is an error of the round trip, afterwards of reading the body.
\<close>

definition upstream_transport ::
  "'s handler \<Rightarrow> out_request \<Rightarrow> 's \<Rightarrow> (transport_error + response) \<times> 's" where
  "upstream_transport H out s =
     (case H empty_header (out_req out) s of
        ((ops, outcome), s') \<Rightarrow>
          let w = fold rw_op ops new_rwriter
          in if outcome \<noteq> Returned_ok \<and> rw_status w = None then (Inl other_error, s')
             else (Inr \<lparr>rs_StatusCode = the (rw_status (served ops)), rs_Header = rw_sent (served ops),
                        rs_chunks = [rw_body (served ops)], rs_copyFails = (outcome \<noteq> Returned_ok)\<rparr>, s'))"

lemma upstream_transport_state: "snd (upstream_transport H out s) = snd (H empty_header (out_req out) s)"
  by (simp add: upstream_transport_def Let_def case_prod_beta)

section \<open>Whose orders are stored\<close>

text \<open>The orders in \<open>db\<close> are the old ones, followed by orders of the given users.\<close>

definition stored_for :: "string set \<Rightarrow> order list \<Rightarrow> database \<Rightarrow> bool" where
  "stored_for users old db \<longleftrightarrow> (\<exists>new. db_orders db = old @ new \<and> o_UserID ` set new \<subseteq> users)"

text \<open>
  The users, as the database knows them, whose tokens the gateway accepts among the credentials
  \<open>A\<close>.
\<close>

definition token_users :: "('key, 'e) jwt_parser \<Rightarrow> 'f db_env \<Rightarrow> 'key option \<Rightarrow> string set \<Rightarrow> string set" where
  "token_users P denv publicKey A =
     {u. \<exists>key ts t c. publicKey = Some key \<and> ''Bearer '' @ ts \<in> A \<and> parseAndValidateToken P ts key = Inr t \<and> extractClaims t = Inr c \<and>
        parse_uuid denv (Subject c) = Some u}"

text \<open>
  The orders service runs on \<open>host\<close>, on the database \<open>db_of w\<close> of the world, and only requests to
  that host change the database.
\<close>

definition orders_network ::
  "'w proxy_env \<Rightarrow> 'e db_env \<Rightarrow> (request \<Rightarrow> reply) \<Rightarrow> string \<Rightarrow> ('w \<Rightarrow> database) \<Rightarrow> bool" where
  "orders_network env denv other host db_of \<longleftrightarrow>
     (\<forall>out w. db_of (snd (pe_RoundTrip env out w)) =
        (if out_URLHost out = host then snd (upstream_transport (orders_mux denv other) out (db_of w)) else db_of w)) \<and>
     (\<forall>err w. db_of (pe_logError env err w) = db_of w)"

definition reaches :: "'w proxy_env \<Rightarrow> string \<Rightarrow> string list \<Rightarrow> bool" where
  "reaches env host urls \<longleftrightarrow> (\<exists>u\<in>set urls. \<exists>scheme. pe_Parse env u = Some (scheme, host))"

lemma orders_mux_stores:
  assumes "set_option (parse_uuid denv (header_Get (r_Header r) ''X-User'')) \<subseteq> users" and "stored_for users old db"
  shows "stored_for users old (snd (orders_mux denv other h r db))"
proof -
  have "stored_for users old (snd (post_orders denv h r db))"
  proof (cases "\<exists>payload u p. orderable denv r db payload u p")
    case True
    then obtain payload u p where ok: "orderable denv r db payload u p" by blast
    then have "o_UserID (new_order payload u p db) \<in> users"
      using assms(1) by (simp add: orderable_def new_order_def)
    moreover obtain new where "db_orders db = old @ new" "o_UserID ` set new \<subseteq> users"
      using assms(2) by (auto simp: stored_for_def)
    ultimately show ?thesis
      unfolding stored_for_def post_orders_stores [OF ok]
      by (intro exI [of _ "new @ [new_order payload u p db]"]) auto
  next
    case False
    then show ?thesis using post_orders_refuses [of denv r db h] assms(2) by auto
  qed
  moreover have "snd (get_orders denv h r db) = db"
    by (simp add: get_orders_def split: option.split sum.split)
  ultimately show ?thesis using assms(2) by (simp add: orders_mux_def upstream_healthz_def)
qed

text \<open>
  What a proxy keeps if the requests it sends to the orders service, if any, are those of the
  users.
\<close>

lemma proxy_stores:
  assumes net: "orders_network env denv other host db_of" and "\<forall>u \<in> set urls. pe_Parse env u \<noteq> None"
    and sent: "\<And>r u scheme. Q r \<Longrightarrow> u \<in> set urls \<Longrightarrow> pe_Parse env u = Some (scheme, host) \<Longrightarrow>
      set_option (parse_uuid denv (header_Get (r_Header (out_req (upstream_request env u (scheme, host) r))) ''X-User''))
        \<subseteq> users"
  shows "contract Q (\<lambda>_. True) (\<lambda>s. proxy_inv urls (fst s) \<and> stored_for users old (db_of (snd s))) (proxy_ServeHTTP env)"
proof (rule contractI)
  fix h r s ops out s'
  assume Q: "Q r" and inv: "proxy_inv urls (fst s) \<and> stored_for users old (db_of (snd s))"
    and "proxy_ServeHTTP env h r s = ((ops, out), s')"
  then have eq: "proxy_ServeHTTP env h r (fst s, snd s) = ((ops, out), (fst s', snd s'))" by simp
  from proxy_world [OF eq] inv obtain w1 where
    w1: "w1 = snd s \<or> (\<exists>u loc res. u \<in> set urls \<and> pe_Parse env u = Some loc \<and>
      pe_RoundTrip env (upstream_request env u loc r) (snd s) = (res, w1))"
    and s': "snd s' = w1 \<or> (\<exists>err. snd s' = pe_logError env err w1)" by blast
  have "stored_for users old (db_of (snd (pe_RoundTrip env (upstream_request env u loc r) (snd s))))"
    if "u \<in> set urls" "pe_Parse env u = Some loc" for u loc
  proof (cases "snd loc = host")
    case True
    from sent [OF Q that(1), of "fst loc"] that(2) True
    have "set_option (parse_uuid denv (header_Get (r_Header (out_req (upstream_request env u loc r))) ''X-User'')) \<subseteq> users"
      by auto
    from orders_mux_stores [OF this] inv net show ?thesis
      by (simp add: orders_network_def upstream_transport_state)
  next
    case False
    moreover have "out_URLHost (upstream_request env u loc r) = snd loc"
      by (simp add: upstream_request_def default_user_agent_def Let_def)
    ultimately show ?thesis using net inv by (simp add: orders_network_def)
  qed
  with w1 inv have "stored_for users old (db_of w1)" by (metis snd_conv)
  moreover have "proxy_inv urls (fst s')"
    using proxy_keeps_inv [OF _ _ eq] inv assms(2) by (simp add: list_all_iff)
  ultimately show "(proxy_inv urls (fst s') \<and> stored_for users old (db_of (snd s'))) \<and> (\<forall>v. out = Panicked v \<longrightarrow> True)"
    using s' net by (auto simp: orders_network_def)
qed

lemma user_proxy_stores:
  assumes "orders_network env denv other host db_of" "\<forall>u \<in> set urls. pe_Parse env u \<noteq> None"
    and "trace_only (pe_Inject env)" "set_option (parse_uuid denv (Subject c)) \<subseteq> users"
  shows "contract (carries c) (\<lambda>_. True)
    (\<lambda>s. proxy_inv urls (fst s) \<and> stored_for users old (db_of (snd s))) (proxy_ServeHTTP env)"
proof (rule proxy_stores [OF assms(1,2)])
  fix r u scheme
  assume "carries c r"
  from upstream_identity [OF this assms(3), of u "(scheme, host)"]
  have "header_Get (r_Header (out_req (upstream_request env u (scheme, host) r))) ''X-User'' = Subject c"
    by (simp add: Let_def header_Get_def proxy_keys)
  with assms(4)
  show "set_option (parse_uuid denv (header_Get (r_Header (out_req (upstream_request env u (scheme, host) r))) ''X-User''))
      \<subseteq> users" by simp
qed

lemma service_stores:
  assumes net: "orders_network (ge_proxy env) denv other host db_of" and "trace_only (pe_Inject (ge_proxy env))"
    and "\<forall>l w. db_of (ge_log env l w) = db_of w" and parse: "\<forall>u \<in> set (Upstreams svc). pe_Parse (ge_proxy env) u \<noteq> None"
    and "reaches (ge_proxy env) host (Upstreams svc) \<longrightarrow> Auth svc"
    and "Auth svc \<longrightarrow> publicKey \<noteq> None" "users = token_users (ge_parser env) denv publicKey A"
  shows "contract (presents A) (\<lambda>_. True) (chain_inv svc (\<lambda>w. stored_for users old (db_of w)))
    (service_chain env cfg svc redisClient publicKey)"
proof (cases "Auth svc")
  case True
  with assms(6) obtain key where key: "publicKey = Some key" by auto
  have "contract (carries c) (\<lambda>_. True) (chain_inv svc (\<lambda>w. stored_for users old (db_of w)))
      (inner_chain env cfg svc redisClient)"
    if "''Bearer '' @ ts \<in> A" "parseAndValidateToken (ge_parser env) ts key = Inr t" "extractClaims t = Inr c" for ts t c
  proof -
    have "set_option (parse_uuid denv (Subject c)) \<subseteq> users"
      using that assms(7) key by (auto simp: token_users_def)
    then show ?thesis
      unfolding chain_inv_eq
      by (intro user.keeps_inner_chain user_proxy_stores [OF net parse]) (use assms(2,3) in auto)
  qed
  from JWTAuth_presented [OF this] True key show ?thesis by (simp add: service_chain_inner)
next
  case False
  with assms(5) have "\<not> reaches (ge_proxy env) host (Upstreams svc)" by simp
  then show ?thesis
    unfolding chain_inv_eq
    by (intro creds.keeps_service_chain creds.keeps_inner_chain proxy_stores [OF net parse])
      (use assms(3) in \<open>auto simp: reaches_def\<close>)
qed


definition orders_gateway :: "(nat, unit, unit, unit, database) gateway_env" where
  "orders_gateway =
     \<lparr>ge_parser = example_parser, ge_lim_new = (\<lambda>_ _. ()), ge_lim_allow = (\<lambda>_ _. (True, ())),
      ge_redis = (\<lambda>_. \<lparr>env_server_ms = 0, env_now_ms = 0, env_net = NetOk\<rparr>), ge_log = (\<lambda>_ w. w),
      ge_sha256 = zero_sha, ge_flight = (\<lambda>_. None), ge_detect = (\<lambda>_. ''text/plain''),
      ge_gzip = identity_codec, ge_rand = (\<lambda>w. (Inr (replicate 16 0), w)), ge_RoutePattern = (\<lambda>_. []),
      ge_Extract = (\<lambda>c _. c), ge_StartSpan = (\<lambda>c. c),
      ge_proxy = \<lparr>pe_IsHealthy = (\<lambda>_ _. True), pe_now = (\<lambda>_. 100), pe_Parse = (\<lambda>_. Some (''http'', ''o:1'')),
        pe_Inject = (\<lambda>_ h. h),
        pe_RoundTrip = (\<lambda>out w. if out_URLHost out = ''o:1''
          then upstream_transport (orders_mux example_db_env (\<lambda>_. error_json 404 [])) out w else (Inl other_error, w)),
        pe_logError = (\<lambda>_ w. w)\<rparr>\<rparr>"

text \<open>A client that presents the token of one user and claims to be another.\<close>

definition spoofed_order :: request where
  "spoofed_order = (order_by ''u2'')\<lparr>r_Header := (r_Header (bearer ''t7''))(''X-User'' := [''u2''])\<rparr>"


section \<open>Requests that open a breaker\<close>

text \<open>The upstream is the catalog service, on the database \<open>db_of w\<close>.\<close>

definition catalog_backend ::
  "'w proxy_env \<Rightarrow> 'e db_env \<Rightarrow> (request \<Rightarrow> reply) \<Rightarrow> ('w \<Rightarrow> database) \<Rightarrow> bool" where
  "catalog_backend env denv other db_of \<longleftrightarrow>
     (\<forall>out w. fst (pe_RoundTrip env out w) = fst (upstream_transport (catalog_mux denv other) out (db_of w)))"

lemma catalog_bad_id:
  assumes "r_Path r = ''/products/'' @ i" "segment i" "r_Method r = ''GET''" "parse_bigint denv i = None"
  shows "catalog_mux denv other h r db = (error_json 500 ''internal error'', db)"
  using assms
  by (simp add: catalog_mux_def product_id_def HasPrefix_def get_product_def select_product_def split: option.split)

lemma upstream_transport_error:
  assumes "H empty_header (out_req out) s = (error_json 500 msg, s')"
  shows "\<exists>resp. fst (upstream_transport H out s) = Inr resp \<and> rs_StatusCode resp = 500"
  by (simp add: upstream_transport_def assms error_json_def writeJSON_value_def served_def rw_WriteHeader_def
      rw_Write_def new_rwriter_def Let_def)

lemma catalog_bad_id_fails:
  assumes "catalog_backend env denv other db_of" and "\<And>w. pe_IsHealthy env w u" "pe_Parse env u = Some loc"
    and "r_Path r = ''/products/'' @ i" "segment i" "r_Method r = ''GET''" "parse_bigint denv i = None"
    and "ascii_print (upgradeType (r_Header r))"
  shows "counts_as_failure env u (\<lambda>_. True) h r"
  unfolding counts_as_failure_def
proof (intro allI impI)
  fix p :: proxy_handler and b :: breaker and w
  assume p: "rr_urls (ph_lb p) = [u]" "ph_breakers p u = Some b" "br_state b = stateClosed"
  obtain lb where lb: "rr_urls lb = [u]" and nu: "Next (pe_IsHealthy env w) (ph_lb p) = (Inr u, lb)"
    by (rule single_healthy_Next [where healthy = "pe_IsHealthy env w", OF p(1) assms(2)])
  let ?out = "upstream_request env u loc r"
  obtain res w' where rt: "pe_RoundTrip env ?out w = (res, w')" by fastforce
  have "r_Path (out_req ?out) = ''/products/'' @ i" "r_Method (out_req ?out) = ''GET''"
    using assms(4,6) by (simp_all add: upstream_request_def default_user_agent_def outgoing_def Let_def)
  from catalog_bad_id [OF this(1) assms(5) this(2) assms(7)] rt assms(1)
  have "\<exists>resp. res = Inr resp \<and> rs_StatusCode resp = 500"
    by (metis catalog_backend_def upstream_transport_error fst_conv)
  then have "recorded t res b = RecordFailure t b" for t by auto
  with proxy_forwards [OF nu p(2) Allow_simps(1) [OF p(3)] assms(8,3) rt, of h] lb
  show "\<exists>reply lb t w'. rr_urls lb = [u] \<and> True \<and>
      proxy_ServeHTTP env h r (p, w) = (reply, (set_breaker u (RecordFailure t b) (p\<lparr>ph_lb := lb\<rparr>), w'))"
    by (intro exI [of _ "proxied_reply res"] exI [of _ lb] exI [of _ "pe_now env w'"] exI [of _ "logged env res w'"])
      (simp add: set_breaker_def)
qed

text \<open>
  C40: a client can open the breaker of a healthy catalog. The id in the path is passed to the
  database as it is, and an id that is not an integer makes the statement fail, which the
  catalog answers with 500 instead of a client error; the gateway counts that as a failure of
  the upstream, so as many such requests as the breaker tolerates failures open it.
\<close>
theorem catalog_bad_id_opens_breaker:
  assumes "catalog_backend env denv other db_of" and "\<And>w. pe_IsHealthy env w u" "pe_Parse env u = Some loc"
    and "r_Path r = ''/products/'' @ i" "segment i" "r_Method r = ''GET''" "parse_bigint denv i = None"
    and "ascii_print (upgradeType (r_Header r))" and "0 < m" "is_i64 m"
  shows "\<exists>b. ph_breakers (fst (snd (serve_all (proxy_ServeHTTP env) (replicate (nat m) (\<lambda>s. s, h, r))
      (NewHandler (NewRoundRobin [u]) [u \<mapsto> NewBreaker m t], w)))) u = Some b \<and> br_state b = stateOpen"
  by (rule failures_open_new_breaker [OF catalog_bad_id_fails [OF assms(1-8)] TrueI assms(9,10)])

definition catalog_env :: "database proxy_env" where
  "catalog_env = \<lparr>pe_IsHealthy = (\<lambda>_ _. True), pe_now = (\<lambda>_. 100), pe_Parse = (\<lambda>_. Some (''http'', ''c:1'')),
     pe_Inject = (\<lambda>_ h. h), pe_RoundTrip = upstream_transport (catalog_mux example_db_env (\<lambda>_. error_json 404 [])),
     pe_logError = (\<lambda>_ w. w)\<rparr>"

theorem catalog_bad_id_opens_breaker_witness:
  "\<exists>b. ph_breakers (fst (snd (serve_all (proxy_ServeHTTP catalog_env)
      (replicate 3 (\<lambda>s. s, empty_header, simple_request ''GET'' ''/products/abc'' []))
      (NewHandler (NewRoundRobin [''http://c:1'']) [''http://c:1'' \<mapsto> NewBreaker 3 50], example_db)))) ''http://c:1'' = Some b \<and>
    br_state b = stateOpen"
proof -
  have "catalog_backend catalog_env example_db_env (\<lambda>_. error_json 404 []) id"
    by (simp add: catalog_backend_def catalog_env_def)
  moreover have "pe_IsHealthy catalog_env w u" "pe_Parse catalog_env u = Some (''http'', ''c:1'')" for w u
    by (simp_all add: catalog_env_def)
  moreover have "parse_bigint example_db_env ''abc'' = None" by (simp add: example_db_env_def)
  moreover have "r_Path (simple_request ''GET'' ''/products/abc'' []) = ''/products/'' @ ''abc''"
    "r_Method (simple_request ''GET'' ''/products/abc'' []) = ''GET''" by (simp_all add: simple_request_def)
  ultimately show ?thesis
    using catalog_bad_id_opens_breaker [of catalog_env example_db_env "\<lambda>_. error_json 404 []" id "''http://c:1''"
        "(''http'', ''c:1'')" "simple_request ''GET'' ''/products/abc'' []" "''abc''" 3 empty_header 50 example_db]
      no_upgrade by (simp add: is_i64_def maxInt_def)
qed

end
