(* ===== verification/Loadtest.thy ===== *)
theory Loadtest
  imports Auth Go_Json
begin

text \<open>
  The load test of the gateway: \<^verbatim>\<open>loadtest/token.go\<close>, \<^verbatim>\<open>loadtest/cmd/gentoken\<close> and
  \<^verbatim>\<open>loadtest/scenarios/user_flow.go\<close>.

  A simulated user is a function on the statistics and the world; what it asks of the world is
  the record \<open>user_env\<close>: the context, the clock, the client, the random numbers and the waiting.
  The loops of a user and of the reporter may run for ever, so they are partial functions, and
  that a user stops is a theorem. The contents of a printed line are the record \<open>interval_line\<close>;
  its text is in \<open>Loadtest_Report\<close>. Floating point numbers are reals.
\<close>

section \<open>Tokens\<close>

datatype 'k private_key = RSAPrivate 'k | OtherPrivate

datatype 'e load_error = LoadError 'e | NoPEM string | NotRSA

definition LoadPrivateKey ::
  "(string \<Rightarrow> 'e + string) \<Rightarrow> (string \<Rightarrow> string option) \<Rightarrow> (string \<Rightarrow> 'e + 'k private_key) \<Rightarrow> string \<Rightarrow>
   'e load_error + 'k" where
  "LoadPrivateKey readFile pemDecode parsePKCS8 path =
     (case readFile path of
        Inl err \<Rightarrow> Inl (LoadError err)
      | Inr data \<Rightarrow>
          (case pemDecode data of
             None \<Rightarrow> Inl (NoPEM path)
           | Some block \<Rightarrow>
               (case parsePKCS8 block of
                  Inl err \<Rightarrow> Inl (LoadError err)
                | Inr OtherPrivate \<Rightarrow> Inl NotRSA
                | Inr (RSAPrivate k) \<Rightarrow> Inr k)))"

text \<open>
  \<open>sign key t\<close> is \<^verbatim>\<open>token.SignedString\<close>. The roles are a slice that is not nil, which JSON
  encodes as an array.
\<close>

definition signed_claims :: "time \<Rightarrow> string \<Rightarrow> string list \<Rightarrow> token" where
  "signed_claims now subject roles =
     \<lparr>tk_Method = SigningMethodRSA, tk_alg = ''RS256'',
      tk_Claims = MapClaims [''sub'' \<mapsto> JString subject, ''roles'' \<mapsto> JArray (map JString roles),
        ''exp'' \<mapsto> JNumber (of_int ((now + 3600 * 10 ^ 9) div 10 ^ 9))]\<rparr>"

definition SignToken ::
  "('k \<Rightarrow> token \<Rightarrow> 'e + string) \<Rightarrow> time \<Rightarrow> 'k \<Rightarrow> string \<Rightarrow> string list \<Rightarrow> 'e + string" where
  "SignToken sign now key subject roles = sign key (signed_claims now subject roles)"

text \<open>Both programs end with status 1 when the key cannot be loaded or the token not be signed.\<close>

datatype 'e exit_cause = KeyFailed "'e load_error" | SignFailed 'e

definition token_for ::
  "'e load_error + 'k \<Rightarrow> ('k \<Rightarrow> token \<Rightarrow> 'e + string) \<Rightarrow> time \<Rightarrow> string \<Rightarrow> 'e exit_cause + string" where
  "token_for loaded sign now sub =
     (case loaded of
        Inl err \<Rightarrow> Inl (KeyFailed err)
      | Inr key \<Rightarrow>
          (case SignToken sign now key sub [''admin''] of
             Inl err \<Rightarrow> Inl (SignFailed err)
           | Inr token \<Rightarrow> Inr token))"

record gentoken_flags =
  gf_key :: string
  gf_sub :: string

definition gentoken_defaults :: gentoken_flags where
  "gentoken_defaults = \<lparr>gf_key = ''../../example.key'', gf_sub = ''550e8400-e29b-41d4-a716-446655440000''\<rparr>"

definition gentoken_main ::
  "(string \<Rightarrow> 'e load_error + 'k) \<Rightarrow> ('k \<Rightarrow> token \<Rightarrow> 'e + string) \<Rightarrow> time \<Rightarrow> gentoken_flags \<Rightarrow> 'e exit_cause + string" where
  "gentoken_main load sign now flags = token_for (load (gf_key flags)) sign now (gf_sub flags)"

section \<open>Statistics\<close>

record stats =
  latencies :: "duration list"
  codes :: "int \<rightharpoonup> int"
  errors :: int

definition new_stats :: stats where
  "new_stats = \<lparr>latencies = [], codes = Map.empty, errors = 0\<rparr>"

definition record_request :: "int \<Rightarrow> duration \<Rightarrow> stats \<Rightarrow> stats" where
  "record_request code d s =
     s\<lparr>latencies := latencies s @ [d],
       codes := (codes s)(code \<mapsto> i64 ((case codes s code of None \<Rightarrow> 0 | Some n \<Rightarrow> n) + 1))\<rparr>"

definition recordError :: "stats \<Rightarrow> stats" where
  "recordError s = s\<lparr>errors := i64 (errors s + 1)\<rparr>"

text \<open>
  \<open>snapshot\<close> holds the mutex, which keeps \<open>record_request\<close> out but not \<open>recordError\<close>: \<open>k\<close> errors
  are recorded after the counter was loaded and before it is set to zero.
\<close>

definition snapshot :: "nat \<Rightarrow> stats \<Rightarrow> (duration list \<times> (int \<rightharpoonup> int) \<times> int) \<times> stats" where
  "snapshot k s =
     (let ls = latencies s;
          cs = codes s;
          es = errors s;
          s = (recordError ^^ k) s
      in ((ls, cs, es), s\<lparr>latencies := [], codes := Map.empty, errors := 0\<rparr>))"

section \<open>Reports\<close>

definition Truncate :: "duration \<Rightarrow> duration \<Rightarrow> duration" where
  "Truncate d m = (if m \<le> 0 then d else d - sgn d * (\<bar>d\<bar> mod m))"

definition slice_index :: "'a list \<Rightarrow> nat \<Rightarrow> panic + 'a" where
  "slice_index xs i = (if i < length xs then Inr (xs ! i) else Inl (PanicMsg ''index out of range''))"

definition percentile :: "nat \<Rightarrow> duration list \<Rightarrow> panic + duration" where
  "percentile q ls = map_sum id (\<lambda>d. Truncate d (100 * 1000)) (slice_index ls (length ls * q div 100))"

record interval_line =
  il_reqs :: nat
  il_percentiles :: "(duration \<times> duration \<times> duration) option"
  il_errs :: int
  il_codes :: "int \<rightharpoonup> int"

definition interval_report :: "duration list \<Rightarrow> (int \<rightharpoonup> int) \<Rightarrow> int \<Rightarrow> panic + interval_line option" where
  "interval_report ls cs errs =
     (if ls = [] \<and> errs = 0 then Inr None
      else
        let ls = sort ls
        in if ls = [] then Inr (Some \<lparr>il_reqs = 0, il_percentiles = None, il_errs = errs, il_codes = cs\<rparr>)
           else
             case percentile 50 ls of
               Inl v \<Rightarrow> Inl v
             | Inr p50 \<Rightarrow>
                 (case percentile 95 ls of
                    Inl v \<Rightarrow> Inl v
                  | Inr p95 \<Rightarrow>
                      (case percentile 99 ls of
                         Inl v \<Rightarrow> Inl v
                       | Inr p99 \<Rightarrow>
                           Inr (Some \<lparr>il_reqs = length ls, il_percentiles = Some (p50, p95, p99), il_errs = errs, il_codes = cs\<rparr>))))"

definition printInterval :: "nat \<Rightarrow> stats \<Rightarrow> (panic + interval_line option) \<times> stats" where
  "printInterval k s = (case snapshot k s of ((ls, cs, errs), s') \<Rightarrow> (interval_report ls cs errs, s'))"

section \<open>Users\<close>

record load_request =
  lq_Method :: string
  lq_URL :: string
  lq_Body :: string
  lq_Header :: header

record 'w user_env =
  ue_ctxErr :: "'w \<Rightarrow> bool"
  ue_now :: "'w \<Rightarrow> time"
  ue_validRequest :: "string \<Rightarrow> string \<Rightarrow> bool"
  ue_Do :: "load_request \<Rightarrow> 'w \<Rightarrow> int option \<times> 'w"
  ue_IntN :: "int \<Rightarrow> 'w \<Rightarrow> int \<times> 'w"
  ue_Float64 :: "'w \<Rightarrow> real \<times> 'w"
  ue_ctxDone_or_after :: "duration \<Rightarrow> 'w \<Rightarrow> bool \<times> 'w"

definition doReq ::
  "'w user_env \<Rightarrow> string \<Rightarrow> string \<Rightarrow> string \<Rightarrow> string \<Rightarrow> stats \<times> 'w \<Rightarrow> stats \<times> 'w" where
  "doReq env verb url body token sw =
     (case sw of
        (s, w) \<Rightarrow>
          if \<not> ue_validRequest env verb url then (recordError s, w)
          else
            let h = (if body \<noteq> [] then header_Set ''Content-Type'' ''application/json'' empty_header else empty_header);
                h = (if token \<noteq> [] then header_Set ''Authorization'' (''Bearer '' @ token) h else h);
                start = ue_now env w;
                (resp, w) = ue_Do env \<lparr>lq_Method = verb, lq_URL = url, lq_Body = body, lq_Header = h\<rparr> w;
                elapsed = ue_now env w - start
            in (case resp of
                  None \<Rightarrow> (if ue_ctxErr env w then s else recordError s, w)
                | Some code \<Rightarrow> (record_request code elapsed s, w)))"

definition go_trunc :: "real \<Rightarrow> int" where
  "go_trunc x = (if x \<ge> 0 then \<lfloor>x\<rfloor> else \<lceil>x\<rceil>)"

definition order_body :: "int \<Rightarrow> int \<Rightarrow> string" where
  "order_body productID quantity = json_encode (JObj [(''product_id'', JInt productID), (''quantity'', JInt quantity)])"

text \<open>One round of a user: browse, view, order and think; the flag tells that the context ended.\<close>

definition user_round :: "'w user_env \<Rightarrow> string \<Rightarrow> string \<Rightarrow> duration \<Rightarrow> stats \<times> 'w \<Rightarrow> bool \<times> stats \<times> 'w" where
  "user_round env gateway token think sw =
     (let sw = doReq env ''GET'' (gateway @ ''/catalog/products'') [] [] sw;
          (i, w) = ue_IntN env 3 (snd sw);
          productID = i + 1;
          sw = doReq env ''GET'' (gateway @ ''/catalog/products/'' @ Itoa productID) [] [] (fst sw, w);
          (q, w) = ue_IntN env 3 (snd sw);
          sw = doReq env ''POST'' (gateway @ ''/orders/orders'') (order_body productID (q + 1)) token (fst sw, w);
          (f, w) = ue_Float64 env (snd sw);
          jitter = go_trunc (of_int think * (1 / 2 + f));
          (done, w) = ue_ctxDone_or_after env jitter w
      in (done, fst sw, w))"

partial_function (option) runUser ::
  "'w user_env \<Rightarrow> string \<Rightarrow> string \<Rightarrow> duration \<Rightarrow> stats \<times> 'w \<Rightarrow> (stats \<times> 'w) option" where
  "runUser env gateway token think sw =
     (if ue_ctxErr env (snd sw) then Some sw
      else
        case user_round env gateway token think sw of
          (done, sw') \<Rightarrow> if done then Some sw' else runUser env gateway token think sw')"

text \<open>
  The reporter. \<open>tick\<close> waits for the context or the ticker, while the users go on recording; it
  tells whether it was the context, and how many errors are recorded within the snapshot that
  follows. A ticker with an interval that is not positive panics.
\<close>

partial_function (option) report_ticks ::
  "(stats \<times> 'w \<Rightarrow> bool \<times> nat \<times> stats \<times> 'w) \<Rightarrow> interval_line option list \<Rightarrow> stats \<times> 'w \<Rightarrow>
   ((panic + interval_line option list) \<times> stats \<times> 'w) option" where
  "report_ticks tick printed sw =
     (case tick sw of
        (done, k, s, w) \<Rightarrow>
          if done then Some (Inr printed, (s, w))
          else
            case printInterval k s of
              (Inl v, s') \<Rightarrow> Some (Inl v, (s', w))
            | (Inr line, s') \<Rightarrow> report_ticks tick (printed @ [line]) (s', w))"

definition reportLoop ::
  "(stats \<times> 'w \<Rightarrow> bool \<times> nat \<times> stats \<times> 'w) \<Rightarrow> duration \<Rightarrow> stats \<times> 'w \<Rightarrow>
   ((panic + interval_line option list) \<times> stats \<times> 'w) option" where
  "reportLoop tick interval sw =
     (if interval \<le> 0 then Some (Inl (PanicMsg ''non-positive interval for NewTicker''), sw)
      else report_ticks tick [] sw)"

section \<open>The program\<close>

record load_flags =
  lf_gateway :: string
  lf_key :: string
  lf_users :: int
  lf_duration :: duration
  lf_think :: duration
  lf_interval :: duration

definition load_defaults :: load_flags where
  "load_defaults =
     \<lparr>lf_gateway = ''http://localhost:8080'', lf_key = ''example.key'', lf_users = 10, lf_duration = 30 * 10 ^ 9,
      lf_think = 300 * 10 ^ 6, lf_interval = 5 * 10 ^ 9\<rparr>"

text \<open>
  What \<^verbatim>\<open>main\<close> sets up before it starts its goroutines: one run of \<open>runUser\<close> per user, all with
  the same token and deadline, and one \<open>reportLoop\<close>.
\<close>

record load_plan =
  lp_MaxIdleConns :: int
  lp_MaxIdleConnsPerHost :: int
  lp_IdleConnTimeout :: duration
  lp_ClientTimeout :: duration
  lp_deadline :: time
  lp_stats :: stats
  lp_users :: "(string \<times> string \<times> duration) list"
  lp_interval :: duration

definition user_flow_main ::
  "(string \<Rightarrow> 'e load_error + 'k) \<Rightarrow> ('k \<Rightarrow> token \<Rightarrow> 'e + string) \<Rightarrow> time \<Rightarrow> load_flags \<Rightarrow> 'e exit_cause + load_plan" where
  "user_flow_main load sign now flags =
     (case token_for (load (lf_key flags)) sign now ''550e8400-e29b-41d4-a716-446655440000'' of
        Inl err \<Rightarrow> Inl err
      | Inr token \<Rightarrow>
          Inr \<lparr>lp_MaxIdleConns = 500, lp_MaxIdleConnsPerHost = 500, lp_IdleConnTimeout = 90 * 10 ^ 9,
               lp_ClientTimeout = 10 * 10 ^ 9, lp_deadline = now + lf_duration flags, lp_stats = new_stats,
               lp_users = replicate (nat (lf_users flags)) (lf_gateway flags, token, lf_think flags),
               lp_interval = lf_interval flags\<rparr>)"

section \<open>Laws\<close>

lemma doReq_counts: "length (latencies (fst (doReq env verb url body token sw))) \<le> length (latencies (fst sw)) + 1"
  by (cases sw)
    (simp add: doReq_def Let_def recordError_def record_request_def split: option.split prod.split)

lemma doReq_world:
  "snd (doReq env verb url body token sw) = snd sw \<or>
   (\<exists>q. snd (doReq env verb url body token sw) = snd (ue_Do env q (snd sw)))"
  by (cases sw) (auto simp: doReq_def Let_def case_prod_beta split: option.split)

text \<open>What a user relies on: the clock does not go back, and a timer fires no earlier than asked.\<close>

definition clock_ok :: "'w user_env \<Rightarrow> bool" where
  "clock_ok env \<longleftrightarrow>
     (\<forall>q w. ue_now env w \<le> ue_now env (snd (ue_Do env q w))) \<and>
     (\<forall>n w. ue_now env w \<le> ue_now env (snd (ue_IntN env n w))) \<and>
     (\<forall>w. ue_now env w \<le> ue_now env (snd (ue_Float64 env w)) \<and>
        0 \<le> fst (ue_Float64 env w) \<and> fst (ue_Float64 env w) < 1) \<and>
     (\<forall>d w w'. ue_ctxDone_or_after env d w = (False, w') \<longrightarrow> ue_now env w + d \<le> ue_now env w')"

lemma doReq_clock:
  assumes "clock_ok env"
  shows "ue_now env (snd sw) \<le> ue_now env (snd (doReq env verb url body token sw))"
  using assms doReq_world [of env verb url body token sw] by (auto simp: clock_ok_def)

lemma jitter_half:
  assumes "0 \<le> think" "0 \<le> f"
  shows "think div 2 \<le> go_trunc (of_int think * (1 / 2 + f))"
proof -
  have "real_of_int (think div 2) \<le> of_int think / 2" by linarith
  also have "\<dots> \<le> of_int think * (1 / 2 + f)" using assms by (simp add: distrib_left)
  finally show ?thesis using assms by (simp add: go_trunc_def le_floor_iff)
qed

lemma user_round_progress:
  assumes "clock_ok env" "0 \<le> think" "user_round env gateway token think sw = (done, sw')"
  shows "length (latencies (fst sw')) \<le> length (latencies (fst sw)) + 3"
    and "\<not> done \<Longrightarrow> ue_now env (snd sw) + think div 2 \<le> ue_now env (snd sw')"
proof -
  define a where "a = doReq env ''GET'' (gateway @ ''/catalog/products'') [] [] sw"
  obtain i w1 where i: "ue_IntN env 3 (snd a) = (i, w1)" by fastforce
  define b where "b = doReq env ''GET'' (gateway @ ''/catalog/products/'' @ Itoa (i + 1)) [] [] (fst a, w1)"
  obtain q w2 where q: "ue_IntN env 3 (snd b) = (q, w2)" by fastforce
  define c where "c = doReq env ''POST'' (gateway @ ''/orders/orders'') (order_body (i + 1) (q + 1)) token (fst b, w2)"
  obtain f w3 where f: "ue_Float64 env (snd c) = (f, w3)" by fastforce
  obtain dn w4 where d: "ue_ctxDone_or_after env (go_trunc (of_int think * (1 / 2 + f))) w3 = (dn, w4)" by fastforce
  have "user_round env gateway token think sw = (dn, fst c, w4)"
    unfolding user_round_def Let_def a_def [symmetric] i prod.case b_def [symmetric] q c_def [symmetric] f d ..
  then have res: "done = dn" "sw' = (fst c, w4)" using assms(3) by simp_all
  have "length (latencies (fst a)) \<le> length (latencies (fst sw)) + 1"
    "length (latencies (fst b)) \<le> length (latencies (fst (fst a, w1))) + 1"
    "length (latencies (fst c)) \<le> length (latencies (fst (fst b, w2))) + 1"
    unfolding a_def b_def c_def by (rule doReq_counts)+
  then show "length (latencies (fst sw')) \<le> length (latencies (fst sw)) + 3" by (simp add: res)
  assume "\<not> done"
  then have "ue_now env w3 + go_trunc (of_int think * (1 / 2 + f)) \<le> ue_now env w4"
    using assms(1) d res by (simp add: clock_ok_def)
  moreover have "ue_now env (snd sw) \<le> ue_now env (snd a)" "ue_now env (snd (fst a, w1)) \<le> ue_now env (snd b)"
    "ue_now env (snd (fst b, w2)) \<le> ue_now env (snd c)"
    unfolding a_def b_def c_def by (rule doReq_clock [OF assms(1)])+
  moreover have "ue_now env (snd a) \<le> ue_now env (snd (i, w1))" "ue_now env (snd b) \<le> ue_now env (snd (q, w2))"
    "ue_now env (snd c) \<le> ue_now env (snd (f, w3))" "0 \<le> fst (f, w3)"
    unfolding i [symmetric] q [symmetric] f [symmetric] using assms(1) by (simp_all add: clock_ok_def)
  ultimately show "ue_now env (snd sw) + think div 2 \<le> ue_now env (snd sw')"
    using jitter_half [OF assms(2), of f] res by simp
qed

lemma round_bound: "0 < d \<Longrightarrow> x \<le> int (nat (x div d + 1)) * d" for x d :: int
proof -
  assume d: "0 < d"
  have "x < (x div d + 1) * d" using d by (simp add: distrib_right) (metis add.commute add_less_cancel_left div_mult_mod_eq pos_mod_bound)
  also have "\<dots> \<le> int (nat (x div d + 1)) * d" using d by (intro mult_right_mono) simp_all
  finally show ?thesis by simp
qed

lemma runUser_returns:
  assumes "clock_ok env" and "\<And>w. deadline \<le> ue_now env w \<Longrightarrow> ue_ctxErr env w" and "0 \<le> think"
  shows "deadline - ue_now env (snd sw) \<le> int n * (think div 2) \<Longrightarrow>
    \<exists>sw'. runUser env gateway token think sw = Some sw' \<and>
      length (latencies (fst sw')) \<le> length (latencies (fst sw)) + 3 * n"
proof (induction n arbitrary: sw)
  case 0
  then show ?case using assms(2) by (subst runUser.simps) simp
next
  case (Suc n)
  obtain dn sw' where r: "user_round env gateway token think sw = (dn, sw')" by (rule prod.exhaust)
  note progress = user_round_progress [OF assms(1,3) r]
  show ?case
  proof (cases "ue_ctxErr env (snd sw) \<or> dn")
    case True
    then have "runUser env gateway token think sw = Some (if ue_ctxErr env (snd sw) then sw else sw')"
      by (subst runUser.simps) (auto simp: r)
    then show ?thesis using progress(1) by simp
  next
    case False
    then have "deadline - ue_now env (snd sw') \<le> int n * (think div 2)"
      using progress(2) Suc.prems by (simp add: distrib_right)
    moreover have "runUser env gateway token think sw = runUser env gateway token think sw'"
      using False by (subst runUser.simps) (simp add: r)
    ultimately show ?thesis using Suc.IH [of sw'] progress(1) by fastforce
  qed
qed

subsection \<open>Percentiles\<close>

lemma Truncate_mono:
  assumes "0 < m" "0 \<le> a" "a \<le> b"
  shows "Truncate a m \<le> Truncate b m"
proof -
  have "Truncate x m = x div m * m" if "0 \<le> x" for x
    using that assms(1) by (cases "x = 0") (simp_all add: Truncate_def sgn_if minus_mod_eq_div_mult)
  with assms show ?thesis by (simp add: zdiv_mono1 mult_right_mono)
qed

text \<open>
  With latencies recorded the report does not panic, and its percentiles are ordered; the entry
  each one is cut from is at least as large as that share of the latencies.
\<close>

lemma percentile_sorted:
  assumes "ls \<noteq> []" "q < 100"
  shows "percentile q (sort ls) = Inr (Truncate (sort ls ! (length ls * q div 100)) 100000)"
    and "length ls * q div 100 < length ls"
    and "length ls * q \<le> 100 * length (filter (\<lambda>d. d \<le> sort ls ! (length ls * q div 100)) ls)"
proof -
  let ?i = "length ls * q div 100"
  show i: "?i < length ls" using assms by (simp add: div_less_iff_less_mult)
  then show "percentile q (sort ls) = Inr (Truncate (sort ls ! ?i) 100000)"
    by (simp add: percentile_def slice_index_def)
  have "x \<le> sort ls ! ?i" if "x \<in> set (take (Suc ?i) (sort ls))" for x
    using that i by (auto simp: in_set_conv_nth intro!: sorted_nth_mono)
  then have "filter (\<lambda>d. d \<le> sort ls ! ?i) (take (Suc ?i) (sort ls)) = take (Suc ?i) (sort ls)"
    by simp
  then have "Suc ?i \<le> length (filter (\<lambda>d. d \<le> sort ls ! ?i) (take (Suc ?i) (sort ls)))"
    using i by simp
  also have "\<dots> \<le> length (filter (\<lambda>d. d \<le> sort ls ! ?i) (take (Suc ?i) (sort ls) @ drop (Suc ?i) (sort ls)))"
    by (simp only: filter_append length_append)
  also have "\<dots> = length (filter (\<lambda>d. d \<le> sort ls ! ?i) ls)"
    by (simp only: append_take_drop_id) (metis filter_sort length_sort)
  finally show "length ls * q \<le> 100 * length (filter (\<lambda>d. d \<le> sort ls ! ?i) ls)" by linarith
qed

lemma interval_report_ordered:
  assumes "ls \<noteq> []" "\<forall>d \<in> set ls. 0 \<le> d"
  shows "\<exists>p50 p95 p99. p50 \<le> p95 \<and> p95 \<le> p99 \<and> interval_report ls cs errs =
    Inr (Some \<lparr>il_reqs = length ls, il_percentiles = Some (p50, p95, p99), il_errs = errs, il_codes = cs\<rparr>)"
proof -
  have "sort ls ! i \<le> sort ls ! j" "0 \<le> sort ls ! i" if "i \<le> j" "j < length ls" for i j
    using that assms(2) by (auto intro!: sorted_nth_mono) (metis length_sort nth_mem order.strict_trans1 set_sort)
  note nth_le = this
  define P where "P q = Truncate (sort ls ! (length ls * q div 100)) 100000" for q
  have "P a \<le> P b" if "a \<le> b" "b < 100" for a b
    unfolding P_def
    using nth_le [of "length ls * a div 100" "length ls * b div 100"] percentile_sorted(2) [OF assms(1) that(2)] that(1)
    by (intro Truncate_mono) (simp_all add: div_le_mono)
  moreover have "percentile q (sort ls) = Inr (P q)" if "q < 100" for q
    using percentile_sorted(1) [OF assms(1) that] by (simp add: P_def)
  moreover have "sort ls \<noteq> []" using assms(1) by (metis length_0_conv length_sort)
  ultimately show ?thesis using assms(1) by (simp add: interval_report_def Let_def)
qed

subsection \<open>Accounting\<close>

text \<open>
  What happens to the statistics in a run: requests and errors recorded by the users, and
  snapshots by the reporter with \<open>k\<close> errors recorded in between.
\<close>

datatype stats_event = Request int duration | Failed | Report nat

fun on_event :: "stats_event \<Rightarrow> stats \<times> (duration list \<times> int) \<Rightarrow> stats \<times> (duration list \<times> int)" where
  "on_event (Request code d) (s, out) = (record_request code d s, out)"
| "on_event Failed (s, out) = (recordError s, out)"
| "on_event (Report k) (s, (ls, es)) =
     (case snapshot k s of ((l, c, e), s') \<Rightarrow> (s', (ls @ l, es + e)))"

fun requests_of :: "stats_event \<Rightarrow> duration list" where
  "requests_of (Request code d) = [d]"
| "requests_of _ = []"

fun failures_of :: "stats_event \<Rightarrow> nat" where
  "failures_of Failed = 1"
| "failures_of (Report k) = k"
| "failures_of _ = 0"

fun lost_in :: "stats_event \<Rightarrow> nat" where
  "lost_in (Report k) = k"
| "lost_in _ = 0"

text \<open>
  Over all reports and what is still pending, each recorded latency appears exactly once and in
  order; of the errors exactly those are missing that were recorded while a snapshot had loaded
  the counter and not yet set it to zero, which the mutex does not prevent.
\<close>

lemma stats_account:
  assumes "fold on_event evs (new_stats, ([], 0)) = (s, (ls, es))"
    and "int (sum_list (map failures_of evs)) \<le> maxInt"
  shows "ls @ latencies s = concat (map requests_of evs) \<and> 0 \<le> errors s \<and> 0 \<le> es \<and>
    es + errors s + int (sum_list (map lost_in evs)) = int (sum_list (map failures_of evs))"
  using assms
proof (induction evs arbitrary: s ls es rule: rev_induct)
  case Nil
  then show ?case by (auto simp: new_stats_def)
next
  case (snoc ev evs)
  obtain s0 ls0 es0 where prev: "fold on_event evs (new_stats, ([], 0)) = (s0, (ls0, es0))" by (rule prod_cases3)
  have "int (sum_list (map failures_of evs)) \<le> maxInt" using snoc.prems(2) by simp
  note IH = snoc.IH [OF prev this]
  have step: "on_event ev (s0, (ls0, es0)) = (s, (ls, es))" using snoc.prems(1) prev by simp
  show ?case
  proof (cases ev)
    case Failed
    with IH snoc.prems(2) have "is_i64 (errors s0 + 1)" by (simp add: is_i64_def)
    with step IH show ?thesis by (auto simp: Failed recordError_def)
  qed (use step IH in \<open>auto simp: record_request_def snapshot_def Let_def\<close>)
qed

subsection \<open>Signed tokens\<close>

definition ascii :: "string \<Rightarrow> bool" where
  "ascii s = list_all (\<lambda>c. of_char c < (128 :: nat)) s"

fun ascii_json :: "json \<Rightarrow> bool" where
  "ascii_json (JString s) = ascii s"
| "ascii_json (JArray vs) = list_all ascii_json vs"
| "ascii_json (JObject fs) = list_all (\<lambda>(k, v). ascii k \<and> ascii_json v) fs"
| "ascii_json _ = True"

text \<open>
  The promise of the JWT library to one who signs: a token is parsed back, with the same claims,
  if it is not expired, its method is among the valid ones and the key function gives the
  public key of the signer. Text survives the JSON encoding if it is ASCII. \<open>parse now\<close> is the
  parser at the time \<open>now\<close>.
\<close>

definition jwt_complete ::
  "('k \<Rightarrow> 'key) \<Rightarrow> ('k \<Rightarrow> token \<Rightarrow> 'e + string) \<Rightarrow> (time \<Rightarrow> ('key, 'f) jwt_parser) \<Rightarrow> bool" where
  "jwt_complete pub sign parse \<longleftrightarrow>
     (\<forall>key t ts m x now kf methods.
        sign key t = Inr ts \<longrightarrow> tk_Claims t = MapClaims m \<longrightarrow> (\<forall>v \<in> ran m. ascii_json v) \<longrightarrow>
        m ''exp'' = Some (JNumber x) \<longrightarrow> of_int now / 10 ^ 9 < x \<longrightarrow>
        kf t = Inr (pub key) \<longrightarrow> tk_alg t \<in> set methods \<longrightarrow> parse now ts kf methods = Inr t)"

lemma jwt_completeD:
  assumes "jwt_complete pub sign parse" "sign key t = Inr ts" "tk_Claims t = MapClaims m" "\<forall>v \<in> ran m. ascii_json v"
    and "m ''exp'' = Some (JNumber x)" "of_int now / 10 ^ 9 < x" "kf t = Inr (pub key)" "tk_alg t \<in> set methods"
  shows "parse now ts kf methods = Inr t"
  using assms unfolding jwt_complete_def by blast

lemma expiry_not_reached:
  assumes "t' + 10 ^ 9 \<le> t + 3600 * 10 ^ 9"
  shows "of_int t' / 10 ^ 9 < (of_int ((t + 3600 * 10 ^ 9) div 10 ^ 9) :: real)"
proof -
  have "t' < (t + 3600 * 10 ^ 9) div 10 ^ 9 * 10 ^ 9" using assms by (simp add: div_mult_mod_eq [symmetric])
  then have "(of_int t' :: real) < of_int ((t + 3600 * 10 ^ 9) div 10 ^ 9 * 10 ^ 9)" by (simp only: of_int_less_iff)
  then show ?thesis by (simp add: divide_less_eq)
qed

section \<open>Properties\<close>

text \<open>
  C32: the tokens of the load test are accepted. A request with a token that \<^verbatim>\<open>SignToken\<close> made
  passes \<^verbatim>\<open>JWTAuth\<close> with the signer's public key for an hour less the second to which the expiry
  is rounded, and the next handler sees the subject and the roles that were signed.
\<close>
theorem SignToken_accepted:
  assumes "jwt_complete pub sign parse" and "SignToken sign t key sub roles = Inr ts"
    and "ascii sub" "list_all ascii roles" and "t' + 10 ^ 9 \<le> t + 3600 * 10 ^ 9"
    and "header_Get (r_Header r) ''Authorization'' = ''Bearer '' @ ts"
  shows "JWTAuth (parse t') (pub key) next h r s =
    next h (r\<lparr>r_ctx := newClaimsContext (r_ctx r) \<lparr>Subject = sub, Roles = roles\<rparr>\<rparr>) s"
proof -
  let ?t = "signed_claims t sub roles"
  have "parseAndValidateToken (parse t') ts (pub key) = Inr ?t"
    unfolding parseAndValidateToken_def
  proof (rule jwt_completeD [OF assms(1)])
    show "sign key ?t = Inr ts" using assms(2) by (simp add: SignToken_def)
    show "tk_Claims ?t = MapClaims [''sub'' \<mapsto> JString sub, ''roles'' \<mapsto> JArray (map JString roles),
        ''exp'' \<mapsto> JNumber (of_int ((t + 3600 * 10 ^ 9) div 10 ^ 9))]" (is "_ = MapClaims ?m")
      by (simp only: signed_claims_def token.simps)
    show "\<forall>v \<in> ran ?m. ascii_json v"
      using assms(3,4) by (auto simp: ran_def list_all_iff split: if_splits)
    show "?m ''exp'' = Some (JNumber (of_int ((t + 3600 * 10 ^ 9) div 10 ^ 9)))" by simp
  qed (use expiry_not_reached [OF assms(5)] in \<open>simp_all add: signed_claims_def\<close>)
  moreover have "extractClaims ?t = Inr \<lparr>Subject = sub, Roles = roles\<rparr>"
    by (simp add: extractClaims_spec signed_claims_def)
  moreover have "CutPrefix (''Bearer '' @ ts) ''Bearer '' = (ts, True)" by (simp only: CutPrefix_ok_iff)
  ultimately show ?thesis using assms(6) by (simp only: JWTAuth_def Let_def prod.case sum.case not_True_eq_False if_False)
qed

text \<open>
  C29: a simulated user stops. If the context is done from some time on, the clock does not go
  back and the think time is at least two nanoseconds, \<^verbatim>\<open>runUser\<close> returns; every round takes at
  least half the think time, which bounds the rounds, and so the requests, that fit before the
  deadline.
\<close>
theorem runUser_terminates:
  assumes "clock_ok env" and "\<And>w. deadline \<le> ue_now env w \<Longrightarrow> ue_ctxErr env w" and "2 \<le> think"
  shows "\<exists>s' w'. runUser env gateway token think (s, w) = Some (s', w') \<and>
    length (latencies s') \<le> length (latencies s) + 3 * nat ((deadline - ue_now env w) div (think div 2) + 1)"
proof -
  define n where "n = nat ((deadline - ue_now env w) div (think div 2) + 1)"
  have "deadline - ue_now env (snd (s, w)) \<le> int n * (think div 2)"
    using assms(3) round_bound [of "think div 2" "deadline - ue_now env w"] by (simp add: n_def)
  from runUser_returns [OF assms(1,2) _ this, of gateway token] assms(3) show ?thesis
    unfolding n_def [symmetric] by fastforce
qed

definition example_user_env :: "time user_env" where
  "example_user_env =
     \<lparr>ue_ctxErr = (\<lambda>w. 100 \<le> w), ue_now = id, ue_validRequest = (\<lambda>_ _. True), ue_Do = (\<lambda>_ w. (Some 200, w + 1)),
      ue_IntN = (\<lambda>_ w. (0, w)), ue_Float64 = (\<lambda>w. (1 / 2, w)), ue_ctxDone_or_after = (\<lambda>d w. (False, w + d))\<rparr>"

theorem runUser_terminates_witness:
  "\<exists>s' w'. runUser example_user_env ''http://gw'' ''t'' 20 (new_stats, 0) = Some (s', w') \<and> length (latencies s') \<le> 33"
  using runUser_terminates [of example_user_env 100 20 "''http://gw''" "''t''" new_stats 0]
  by (simp add: clock_ok_def) (simp add: example_user_env_def new_stats_def)

definition example_sign :: "nat \<Rightarrow> token \<Rightarrow> unit + string" where
  "example_sign key t = (if key = 7 \<and> t = signed_claims 0 ''alice'' [''admin''] then Inr ''tok'' else Inl ())"

definition example_parse :: "time \<Rightarrow> (nat, unit) jwt_parser" where
  "example_parse now ts kf methods =
     (let t = signed_claims 0 ''alice'' [''admin'']
      in if ts = ''tok'' \<and> now < 3600 * 10 ^ 9 \<and> kf t = Inr 14 \<and> ''RS256'' \<in> set methods then Inr t else Inl ())"

lemma example_jwt_complete: "jwt_complete (\<lambda>k. 2 * k) example_sign example_parse"
  by (auto simp: jwt_complete_def example_sign_def example_parse_def signed_claims_def Let_def split: if_splits)

theorem SignToken_accepted_witness:
  "SignToken example_sign 0 7 ''alice'' [''admin''] = Inr ''tok'' \<and>
   JWTAuth (example_parse 5) 14 (\<lambda>h r s. (unauthorized [], r_ctx r)) empty_header (bearer ''tok'') background =
     (unauthorized [], newClaimsContext background \<lparr>Subject = ''alice'', Roles = [''admin'']\<rparr>)"
proof -
  have ts: "SignToken example_sign 0 7 ''alice'' [''admin''] = Inr ''tok''" by (simp add: SignToken_def example_sign_def)
  have "ascii ''alice''" "list_all ascii [''admin'']" by code_simp+
  from SignToken_accepted [OF example_jwt_complete ts this, of 5 "bearer ''tok''" "\<lambda>h r s. (unauthorized [], r_ctx r)"
      empty_header background] ts
  show ?thesis by (simp add: bearer_header) (simp add: bearer_def simple_request_def)
qed

end
