(* ===== verification/Loadtest_Run.thy ===== *)
theory Loadtest_Run
  imports Loadtest
begin

text \<open>
  The goroutines that \<^verbatim>\<open>main\<close> of \<^verbatim>\<open>loadtest/scenarios/user_flow.go\<close> starts, interleaved: the simulated
  users, the reporter and \<^verbatim>\<open>main\<close> itself, which waits for the users, prints a last time and exits
  without waiting for the reporter. They share the statistics, the context and the clock.
  \<open>Loadtest\<close> has the same code for one goroutine at a time.
\<close>

section \<open>States\<close>

text \<open>
  Where a user is: a stage of its flow with the request it makes there, and inside \<^verbatim>\<open>doReq\<close> the
  points between which another goroutine can be seen to act. \<open>Failing\<close> is between the check of
  the context and \<^verbatim>\<open>recordError\<close>.
\<close>

datatype flow_stage = Browsing | Viewing int | Ordering int int

datatype user_pc =
    Top
  | Ready flow_stage
  | InFlight flow_stage time
  | Answered flow_stage int duration
  | Failing flow_stage
  | Jittering
  | Thinking time
  | Stopped

type_synonym snap = "duration list \<times> (int \<rightharpoonup> int) \<times> int"

text \<open>
  A goroutine that calls \<^verbatim>\<open>printInterval\<close>: it waits (for a tick, or for the users), is inside
  \<^verbatim>\<open>snapshot\<close> with the mutex and has loaded the error counter, holds a snapshot that is not
  printed yet, or has returned.
\<close>

datatype printer = Idle | Snapshotting snap | Printing snap | Ended

record load_state =
  ld_now :: time
  ld_ctxDone :: bool
  ld_tick :: bool
  ld_nextTick :: time
  ld_stats :: stats
  ld_users :: "user_pc list"
  ld_reporter :: printer
  ld_main :: printer

text \<open>What a step did to the statistics or the output; \<open>Lost k\<close> is \<^verbatim>\<open>errors.Store(0)\<close> over \<open>k\<close> new errors.\<close>

datatype load_event = Quiet | Recorded int duration | Erred | Lost int | Printed snap

definition snap_of :: "stats \<Rightarrow> snap" where
  "snap_of s = (latencies s, codes s, errors s)"

fun snapshotting :: "printer \<Rightarrow> bool" where
  "snapshotting (Snapshotting x) = True"
| "snapshotting _ = False"

definition mutex_free :: "load_state \<Rightarrow> bool" where
  "mutex_free s \<longleftrightarrow> \<not> snapshotting (ld_reporter s) \<and> \<not> snapshotting (ld_main s)"

section \<open>Steps\<close>

fun stage_request :: "string \<Rightarrow> flow_stage \<Rightarrow> string \<times> string" where
  "stage_request gateway Browsing = (''GET'', gateway @ ''/catalog/products'')"
| "stage_request gateway (Viewing productID) = (''GET'', gateway @ ''/catalog/products/'' @ Itoa productID)"
| "stage_request gateway (Ordering productID quantity) = (''POST'', gateway @ ''/orders/orders'')"

inductive next_stage :: "flow_stage \<Rightarrow> user_pc \<Rightarrow> bool" where
  viewing: "0 \<le> i \<Longrightarrow> i < 3 \<Longrightarrow> next_stage Browsing (Ready (Viewing (i + 1)))"
| ordering: "0 \<le> q \<Longrightarrow> q < 3 \<Longrightarrow> next_stage (Viewing productID) (Ready (Ordering productID (q + 1)))"
| thinking: "next_stage (Ordering productID quantity) Jittering"

text \<open>
  A step of a user that was started with the gateway's URL, the token and the think time. The
  other arguments are what it sees: whether the context is done, the time, whether the mutex is
  free, and the statistics.
\<close>

inductive user_step ::
  "(string \<Rightarrow> string \<Rightarrow> bool) \<Rightarrow> string \<times> string \<times> duration \<Rightarrow> bool \<Rightarrow> time \<Rightarrow> bool \<Rightarrow>
   stats \<times> user_pc \<Rightarrow> load_event \<Rightarrow> stats \<times> user_pc \<Rightarrow> bool" for valid u ctxDone now free where
  stop: "ctxDone \<Longrightarrow> user_step valid u ctxDone now free (s, Top) Quiet (s, Stopped)"
| browse: "\<not> ctxDone \<Longrightarrow> user_step valid u ctxDone now free (s, Top) Quiet (s, Ready Browsing)"
| bad_request: "stage_request (fst u) st = (verb, url) \<Longrightarrow> \<not> valid verb url \<Longrightarrow> next_stage st pc \<Longrightarrow>
    user_step valid u ctxDone now free (s, Ready st) Erred (recordError s, pc)"
| send: "stage_request (fst u) st = (verb, url) \<Longrightarrow> valid verb url \<Longrightarrow>
    user_step valid u ctxDone now free (s, Ready st) Quiet (s, InFlight st now)"
| answered: "user_step valid u ctxDone now free (s, InFlight st start) Quiet (s, Answered st code (now - start))"
| record_answer: "free \<Longrightarrow> next_stage st pc \<Longrightarrow>
    user_step valid u ctxDone now free (s, Answered st code d) (Recorded code d) (record_request code d s, pc)"
| cancelled: "ctxDone \<Longrightarrow> next_stage st pc \<Longrightarrow>
    user_step valid u ctxDone now free (s, InFlight st start) Quiet (s, pc)"
| failed: "\<not> ctxDone \<Longrightarrow> user_step valid u ctxDone now free (s, InFlight st start) Quiet (s, Failing st)"
| record_error: "next_stage st pc \<Longrightarrow> user_step valid u ctxDone now free (s, Failing st) Erred (recordError s, pc)"
| think: "0 \<le> f \<Longrightarrow> f < 1 \<Longrightarrow>
    user_step valid u ctxDone now free (s, Jittering) Quiet
      (s, Thinking (now + go_trunc (of_int (snd (snd u)) * (1 / 2 + f))))"
| wake: "until \<le> now \<Longrightarrow> user_step valid u ctxDone now free (s, Thinking until) Quiet (s, Top)"
| leave: "ctxDone \<Longrightarrow> user_step valid u ctxDone now free (s, Thinking until) Quiet (s, Stopped)"

text \<open>The part of \<^verbatim>\<open>printInterval\<close> after the counter was loaded; \<open>ret\<close> is where it returns to.\<close>

inductive print_step :: "printer \<Rightarrow> stats \<times> printer \<Rightarrow> load_event \<Rightarrow> stats \<times> printer \<Rightarrow> bool" for ret where
  store: "print_step ret (s, Snapshotting (ls, cs, es)) (Lost (errors s - es)) (new_stats, Printing (ls, cs, es))"
| put_line: "print_step ret (s, Printing x) (Printed x) (s, ret)"

inductive load_step ::
  "(string \<Rightarrow> string \<Rightarrow> bool) \<Rightarrow> load_plan \<Rightarrow> load_state \<Rightarrow> load_event \<Rightarrow> load_state \<Rightarrow> bool" for valid plan where
  pass: "0 < d \<Longrightarrow> load_step valid plan s Quiet (s\<lparr>ld_now := ld_now s + d\<rparr>)"
| expire: "lp_deadline plan \<le> ld_now s \<Longrightarrow> load_step valid plan s Quiet (s\<lparr>ld_ctxDone := True\<rparr>)"
| tick: "ld_nextTick s \<le> ld_now s \<Longrightarrow>
    load_step valid plan s Quiet (s\<lparr>ld_tick := True, ld_nextTick := ld_nextTick s + lp_interval plan\<rparr>)"
| user: "i < length (ld_users s) \<Longrightarrow>
    user_step valid (lp_users plan ! i) (ld_ctxDone s) (ld_now s) (mutex_free s) (ld_stats s, ld_users s ! i) ev (st, pc) \<Longrightarrow>
    load_step valid plan s ev (s\<lparr>ld_stats := st, ld_users := (ld_users s)[i := pc]\<rparr>)"
| report_stop: "ld_reporter s = Idle \<Longrightarrow> ld_ctxDone s \<Longrightarrow>
    load_step valid plan s Quiet (s\<lparr>ld_reporter := Ended\<rparr>)"
| report_load: "ld_reporter s = Idle \<Longrightarrow> ld_tick s \<Longrightarrow> mutex_free s \<Longrightarrow>
    load_step valid plan s Quiet (s\<lparr>ld_tick := False, ld_reporter := Snapshotting (snap_of (ld_stats s))\<rparr>)"
| report: "print_step Idle (ld_stats s, ld_reporter s) ev (st, p) \<Longrightarrow>
    load_step valid plan s ev (s\<lparr>ld_stats := st, ld_reporter := p\<rparr>)"
| main_load: "ld_main s = Idle \<Longrightarrow> list_all (\<lambda>pc. pc = Stopped) (ld_users s) \<Longrightarrow> mutex_free s \<Longrightarrow>
    load_step valid plan s Quiet (s\<lparr>ld_main := Snapshotting (snap_of (ld_stats s))\<rparr>)"
| main_print: "print_step Ended (ld_stats s, ld_main s) ev (st, p) \<Longrightarrow>
    load_step valid plan s ev (s\<lparr>ld_stats := st, ld_main := p\<rparr>)"

text \<open>A run of the program: it ends when \<^verbatim>\<open>main\<close> returns, wherever the reporter is.\<close>

definition load_start :: "time \<Rightarrow> load_plan \<Rightarrow> load_state" where
  "load_start now plan =
     \<lparr>ld_now = now, ld_ctxDone = False, ld_tick = False, ld_nextTick = now + lp_interval plan,
      ld_stats = lp_stats plan, ld_users = map (\<lambda>_. Top) (lp_users plan), ld_reporter = Idle, ld_main = Idle\<rparr>"

inductive load_run ::
  "(string \<Rightarrow> string \<Rightarrow> bool) \<Rightarrow> load_plan \<Rightarrow> load_state \<Rightarrow> load_event list \<Rightarrow> load_state \<Rightarrow> bool" for valid plan s0 where
  begin_run: "load_run valid plan s0 [] s0"
| next_step: "load_run valid plan s0 evs s \<Longrightarrow> ld_main s \<noteq> Ended \<Longrightarrow> load_step valid plan s ev s' \<Longrightarrow>
    load_run valid plan s0 (evs @ [ev]) s'"

section \<open>Invariant\<close>

definition code_count :: "int \<Rightarrow> (int \<rightharpoonup> int) \<Rightarrow> int" where
  "code_count code cs = (case cs code of None \<Rightarrow> 0 | Some n \<Rightarrow> n)"

definition stats_within :: "int \<Rightarrow> stats \<Rightarrow> bool" where
  "stats_within n s \<longleftrightarrow> 0 \<le> n \<and> 0 \<le> errors s \<and> errors s \<le> n \<and>
     (\<forall>code. 0 \<le> code_count code (codes s) \<and> code_count code (codes s) \<le> n)"

definition fresh_snap :: "stats \<Rightarrow> printer \<Rightarrow> bool" where
  "fresh_snap s p \<longleftrightarrow> (\<forall>ls cs es. p = Snapshotting (ls, cs, es) \<longrightarrow> ls = latencies s \<and> cs = codes s)"

fun after_store :: "printer \<Rightarrow> bool" where
  "after_store (Printing x) = True"
| "after_store Ended = True"
| "after_store _ = False"

definition load_wf :: "load_state \<Rightarrow> bool" where
  "load_wf s \<longleftrightarrow>
     fresh_snap (ld_stats s) (ld_reporter s) \<and> fresh_snap (ld_stats s) (ld_main s) \<and>
     \<not> (snapshotting (ld_reporter s) \<and> snapshotting (ld_main s)) \<and>
     (ld_main s \<noteq> Idle \<longrightarrow> list_all (\<lambda>pc. pc = Stopped) (ld_users s)) \<and>
     (after_store (ld_main s) \<longrightarrow> ld_stats s = new_stats)"

lemma stats_within_mono: "stats_within n s \<Longrightarrow> stats_within (n + 1) s"
  by (auto simp: stats_within_def intro: add_increasing2)

lemma stats_within_record: "stats_within n s \<Longrightarrow> n < maxInt \<Longrightarrow> stats_within (n + 1) (record_request code d s)"
proof -
  assume s: "stats_within n s" "n < maxInt"
  then have "0 \<le> code_count code (codes s)" "code_count code (codes s) \<le> n" by (auto simp: stats_within_def)
  with s(2) have "i64 (code_count code (codes s) + 1) = code_count code (codes s) + 1" by (simp add: is_i64_def)
  moreover have "code_count c (codes (record_request code d s)) =
      (if c = code then i64 (code_count code (codes s) + 1) else code_count c (codes s))" for c
    by (simp add: code_count_def record_request_def)
  moreover have "errors (record_request code d s) = errors s" by (simp add: record_request_def)
  ultimately show ?thesis using s(1) by (auto simp: stats_within_def intro: add_increasing2)
qed

lemma stats_within_error:
  assumes "stats_within n s" "n < maxInt"
  shows "stats_within (n + 1) (recordError s)" "errors (recordError s) = errors s + 1"
proof -
  from assms have "is_i64 (errors s + 1)" by (simp add: stats_within_def is_i64_def)
  then show "errors (recordError s) = errors s + 1" by (simp add: recordError_def)
  with stats_within_mono [OF assms(1)] assms show "stats_within (n + 1) (recordError s)"
    by (simp add: stats_within_def) (simp add: recordError_def)
qed

lemma stats_within_new: "0 \<le> n \<Longrightarrow> stats_within n new_stats"
  by (simp add: stats_within_def new_stats_def code_count_def)

text \<open>What a user does to the statistics, in the three ways it can.\<close>

lemma user_step_stats:
  assumes "user_step valid u ctxDone now free (s, pc) ev (s', pc')"
  shows "pc \<noteq> Stopped \<and>
    (ev = Quiet \<and> s' = s \<or> ev = Erred \<and> s' = recordError s \<or>
     (\<exists>code d. ev = Recorded code d \<and> free \<and> s' = record_request code d s))"
  using assms by cases auto

lemma load_wf_user:
  assumes "load_wf s" "i < length (ld_users s)"
    and "user_step valid u ctxDone now (mutex_free s) (ld_stats s, ld_users s ! i) ev (st, pc)"
  shows "load_wf (s\<lparr>ld_stats := st, ld_users := (ld_users s)[i := pc]\<rparr>)"
proof -
  note u = user_step_stats [OF assms(3)]
  from u assms(2) have "\<not> list_all (\<lambda>pc. pc = Stopped) (ld_users s)" by (auto simp: list_all_length)
  with assms(1) have "ld_main s = Idle" by (auto simp: load_wf_def)
  moreover have "fresh_snap st (ld_reporter s)"
    using u assms(1) by (cases "ld_reporter s") (auto simp: fresh_snap_def load_wf_def mutex_free_def recordError_def)
  ultimately show ?thesis by (simp add: load_wf_def fresh_snap_def)
qed

lemma load_wf_step:
  assumes "load_step valid plan s ev s'" "load_wf s"
  shows "load_wf s'"
  using assms(1)
proof cases
  case (user i st pc)
  with load_wf_user [OF assms(2)] show ?thesis by simp
next
  case (report st p)
  from report(2) show ?thesis
    using assms(2) report(1) by cases (auto simp: load_wf_def fresh_snap_def)
next
  case (main_print st p)
  from main_print(2) show ?thesis
    using assms(2) main_print(1) by cases (auto simp: load_wf_def fresh_snap_def)
qed (use assms(2) in \<open>auto simp: load_wf_def fresh_snap_def snap_of_def mutex_free_def\<close>)

lemma stats_within_step:
  assumes "load_step valid plan s ev s'" "stats_within n (ld_stats s)" "n < maxInt"
  shows "stats_within (n + 1) (ld_stats s')"
  using assms(1)
proof cases
  case (user i st pc)
  then show ?thesis
    using user_step_stats [OF user(3)] assms(2,3) stats_within_record stats_within_error(1) stats_within_mono by auto
next
  case (report st p)
  from report(2) show ?thesis
    using assms(2) report(1) stats_within_new [of "n + 1"] stats_within_mono [of n]
    by cases (auto simp: stats_within_def)
next
  case (main_print st p)
  from main_print(2) show ?thesis
    using assms(2) main_print(1) stats_within_new [of "n + 1"] stats_within_mono [of n]
    by cases (auto simp: stats_within_def)
qed (use assms(2) stats_within_mono [of n] in auto)

lemma load_wf_run: "load_run valid plan s0 evs s \<Longrightarrow> load_wf s0 \<Longrightarrow> load_wf s"
  by (induction rule: load_run.induct) (auto dest: load_wf_step)

section \<open>Accounting\<close>

text \<open>
  A quantity that is read off a snapshot: \<open>m\<close> reads it, \<open>w\<close> tells how much of it an event adds to the
  statistics, and \<open>lost\<close> how much of it is lost when \<^verbatim>\<open>snapshot\<close> resets the error counter.
\<close>

locale tally =
  fixes m :: "snap \<Rightarrow> int" and w :: "load_event \<Rightarrow> int" and lost :: "int \<Rightarrow> int"
  assumes m_empty: "m ([], Map.empty, 0) = 0"
    and m_record: "0 \<le> code_count code (codes s) \<Longrightarrow> code_count code (codes s) < maxInt \<Longrightarrow>
      m (snap_of (record_request code d s)) = m (snap_of s) + w (Recorded code d)"
    and m_error: "0 \<le> errors s \<Longrightarrow> errors s < maxInt \<Longrightarrow> m (snap_of (recordError s)) = m (snap_of s) + w Erred"
    and m_reset: "m (ls, cs, e) = m (ls, cs, e') + lost (e - e')"
    and w_other: "w Quiet = 0" "w (Lost k) = 0" "w (Printed x) = 0"

fun held :: "(snap \<Rightarrow> int) \<Rightarrow> printer \<Rightarrow> int" where
  "held m (Printing x) = m x"
| "held m _ = 0"

fun gone :: "(snap \<Rightarrow> int) \<Rightarrow> (int \<Rightarrow> int) \<Rightarrow> load_event \<Rightarrow> int" where
  "gone m lost (Printed x) = m x"
| "gone m lost (Lost k) = lost k"
| "gone m lost _ = 0"

definition stock :: "(snap \<Rightarrow> int) \<Rightarrow> load_state \<Rightarrow> int" where
  "stock m s = m (snap_of (ld_stats s)) + held m (ld_reporter s) + held m (ld_main s)"

context tally
begin

lemma user_stock:
  assumes "stats_within n s" "n < maxInt" "user_step valid u ctxDone now free (s, pc) ev (s', pc')"
  shows "m (snap_of s') + gone m lost ev = m (snap_of s) + w ev"
proof -
  have "0 \<le> errors s" "errors s < maxInt" "0 \<le> code_count c (codes s)" "code_count c (codes s) < maxInt" for c
    using assms(1,2) by (auto simp: stats_within_def intro: le_less_trans)
  then show ?thesis
    using user_step_stats [OF assms(3)] by (auto simp: m_record m_error w_other)
qed

lemma print_stock:
  assumes "print_step ret (s, p) ev (s', p')" "fresh_snap s p" "held m ret = 0"
  shows "m (snap_of s') + held m p' + gone m lost ev = m (snap_of s) + held m p + w ev"
  using assms(1)
proof cases
  case (store ls cs es)
  then show ?thesis
    using assms(2) m_reset [of "latencies s" "codes s" "errors s" es]
    by (simp add: snap_of_def fresh_snap_def new_stats_def m_empty w_other)
qed (use assms(3) in \<open>simp add: w_other\<close>)

lemma step_stock:
  assumes "load_step valid plan s ev s'" "load_wf s" "stats_within n (ld_stats s)" "n < maxInt"
  shows "stock m s' + gone m lost ev = stock m s + w ev"
  using assms(1)
proof cases
  case (user i st pc)
  with user_stock [OF assms(3,4) user(3)] show ?thesis by (simp add: stock_def)
next
  case (report st p)
  with print_stock [OF report(2)] assms(2) show ?thesis by (simp add: load_wf_def stock_def)
next
  case (main_print st p)
  with print_stock [OF main_print(2)] assms(2) show ?thesis by (simp add: load_wf_def stock_def)
qed (simp_all add: stock_def w_other)

lemma run_stock:
  assumes "load_run valid plan s0 evs s" "load_wf s0" "stats_within 0 (ld_stats s0)" "int (length evs) \<le> maxInt"
  shows "stats_within (int (length evs)) (ld_stats s) \<and>
    stock m s + sum_list (map (gone m lost) evs) = stock m s0 + sum_list (map w evs)"
  using assms
proof (induction rule: load_run.induct)
  case (next_step evs s ev s')
  then have IH: "stats_within (int (length evs)) (ld_stats s)"
    "stock m s + sum_list (map (gone m lost) evs) = stock m s0 + sum_list (map w evs)" by simp_all
  have "int (length evs) < maxInt" using next_step.prems by simp
  from stats_within_step [OF next_step.hyps(3) IH(1) this] IH(2)
    step_stock [OF next_step.hyps(3) load_wf_run [OF next_step.hyps(1) next_step.prems(1)] IH(1) this]
  show ?case by (simp add: add.commute)
qed simp

end

fun weigh :: "(int \<Rightarrow> int) \<Rightarrow> int \<Rightarrow> load_event \<Rightarrow> int" where
  "weigh a e (Recorded code d) = a code"
| "weigh a e Erred = e"
| "weigh a e _ = 0"

interpretation reqs: tally "\<lambda>x. int (length (fst x))" "weigh (\<lambda>_. 1) 0" "\<lambda>_. 0"
  by unfold_locales (simp_all add: snap_of_def record_request_def recordError_def)

interpretation cods: tally "\<lambda>x. code_count code (fst (snd x))" "weigh (\<lambda>c. of_bool (c = code)) 0" "\<lambda>_. 0" for code
proof
  fix c d and s :: stats
  assume "0 \<le> code_count c (codes s)" "code_count c (codes s) < maxInt"
  then have "is_i64 (code_count c (codes s) + 1)" by (simp add: is_i64_def)
  then show "code_count code (fst (snd (snap_of (record_request c d s)))) =
      code_count code (fst (snd (snap_of s))) + weigh (\<lambda>c. of_bool (c = code)) 0 (Recorded c d)"
    by (auto simp: snap_of_def record_request_def code_count_def)
qed (simp_all add: snap_of_def recordError_def code_count_def)

interpretation errs: tally "\<lambda>x. snd (snd x)" "weigh (\<lambda>_. 0) 1" "\<lambda>k. k"
proof
  fix s :: stats
  assume "0 \<le> errors s" "errors s < maxInt"
  then have "is_i64 (errors s + 1)" by (simp add: is_i64_def)
  then show "snd (snd (snap_of (recordError s))) = snd (snd (snap_of s)) + weigh (\<lambda>_. 0) 1 Erred"
    by (simp add: snap_of_def recordError_def)
qed (simp_all add: snap_of_def record_request_def)

section \<open>The printed lines\<close>

fun line_of :: "snap \<Rightarrow> interval_line list" where
  "line_of (ls, cs, es) = (case interval_report ls cs es of Inr (Some line) \<Rightarrow> [line] | _ \<Rightarrow> [])"

fun printed_by :: "load_event \<Rightarrow> interval_line list" where
  "printed_by (Printed x) = line_of x"
| "printed_by _ = []"

definition stdout :: "load_event list \<Rightarrow> interval_line list" where
  "stdout evs = concat (map printed_by evs)"

text \<open>A snapshot without latencies has no codes, so a line that is not printed would show nothing.\<close>

definition snap_ok :: "snap \<Rightarrow> bool" where
  "snap_ok x \<longleftrightarrow> (fst x = [] \<longrightarrow> fst (snd x) = Map.empty)"

fun carries_ok :: "printer \<Rightarrow> bool" where
  "carries_ok (Snapshotting x) = snap_ok x"
| "carries_ok (Printing x) = snap_ok x"
| "carries_ok _ = True"

definition snaps_ok :: "load_state \<Rightarrow> bool" where
  "snaps_ok s \<longleftrightarrow> snap_ok (snap_of (ld_stats s)) \<and> carries_ok (ld_reporter s) \<and> carries_ok (ld_main s)"

lemma user_snap_ok:
  assumes "user_step valid u ctxDone now free (s, pc) ev (s', pc')" "snap_ok (snap_of s)"
  shows "snap_ok (snap_of s')"
  using user_step_stats [OF assms(1)] assms(2)
  by (auto simp: snap_ok_def snap_of_def record_request_def recordError_def)

lemma snaps_ok_step:
  assumes "load_step valid plan s ev s'" "snaps_ok s"
  shows "snaps_ok s' \<and> (\<forall>x. ev = Printed x \<longrightarrow> snap_ok x)"
  using assms(1)
proof cases
  case (user i st pc)
  with user_snap_ok [OF user(3)] user_step_stats [OF user(3)] assms(2) show ?thesis by (auto simp: snaps_ok_def)
next
  case (report st p)
  from report(2) show ?thesis
    using assms(2) report(1) by cases (auto simp: snaps_ok_def snap_ok_def snap_of_def new_stats_def)
next
  case (main_print st p)
  from main_print(2) show ?thesis
    using assms(2) main_print(1) by cases (auto simp: snaps_ok_def snap_ok_def snap_of_def new_stats_def)
qed (use assms(2) in \<open>auto simp: snaps_ok_def\<close>)

lemma snaps_ok_run:
  assumes "load_run valid plan s0 evs s" "snaps_ok s0"
  shows "snaps_ok s \<and> (\<forall>x. Printed x \<in> set evs \<longrightarrow> snap_ok x)"
  using assms by (induction rule: load_run.induct) (auto dest: snaps_ok_step)

lemma interval_report_total:
  "interval_report ls cs es = Inr None \<and> ls = [] \<and> es = 0 \<or>
   (\<exists>p. interval_report ls cs es =
      Inr (Some \<lparr>il_reqs = length ls, il_percentiles = p, il_errs = es, il_codes = cs\<rparr>))"
proof (cases "ls = []")
  case False
  then have "sort ls \<noteq> []" by (metis length_0_conv length_sort)
  with False show ?thesis
    by (simp add: interval_report_def Let_def percentile_sorted(1))
qed (simp add: interval_report_def)

lemma line_of_tally:
  assumes "snap_ok x"
  shows "sum_list (map (\<lambda>l. int (il_reqs l)) (line_of x)) = int (length (fst x))"
    and "sum_list (map il_errs (line_of x)) = snd (snd x)"
    and "sum_list (map (\<lambda>l. code_count code (il_codes l)) (line_of x)) = code_count code (fst (snd x))"
  using assms interval_report_total [of "fst x" "fst (snd x)" "snd (snd x)"]
  by (cases x; auto simp: snap_ok_def code_count_def)+

text \<open>What the printed lines add up to.\<close>

lemma stdout_tally:
  assumes "\<forall>x. Printed x \<in> set evs \<longrightarrow> sum_list (map f (line_of x)) = m x"
  shows "sum_list (map (gone m lost) evs) =
    sum_list (map f (stdout evs)) + sum_list (map (gone (\<lambda>_. 0) lost) evs)"
  using assms
proof (induction evs)
  case (Cons ev evs)
  then show ?case by (cases ev) (auto simp: stdout_def)
qed (simp add: stdout_def)

section \<open>The way out\<close>

fun stages_left :: "flow_stage \<Rightarrow> nat" where
  "stages_left Browsing = 3"
| "stages_left (Viewing p) = 2"
| "stages_left (Ordering p q) = 1"

text \<open>A bound on the steps of a user once the context is done.\<close>

fun steps_left :: "user_pc \<Rightarrow> nat" where
  "steps_left Top = 1"
| "steps_left (Ready st) = 3 * stages_left st + 3"
| "steps_left (InFlight st start) = 3 * stages_left st + 2"
| "steps_left (Answered st code d) = 3 * stages_left st + 1"
| "steps_left (Failing st) = 3 * stages_left st + 1"
| "steps_left Jittering = 3"
| "steps_left (Thinking until) = 2"
| "steps_left Stopped = 0"

lemma next_stage_steps: "next_stage st pc \<Longrightarrow> steps_left pc \<le> 3 * stages_left st"
  by (erule next_stage.cases) simp_all

lemma user_steps_left:
  assumes "user_step valid u True now free (s, pc) ev (s', pc')"
  shows "steps_left pc' < steps_left pc"
  using assms by cases (auto dest: next_stage_steps)

lemma next_stage_ex: "\<exists>pc. next_stage st pc"
  using next_stage.viewing [of 0] next_stage.ordering [of 0] next_stage.thinking by (cases st) auto

lemma user_gets_on:
  assumes "pc \<noteq> Stopped"
  shows "\<exists>ev s' pc'. user_step valid u True now True (s, pc) ev (s', pc')"
proof (cases pc)
  case (Ready st)
  obtain verb url where q: "stage_request (fst u) st = (verb, url)" by fastforce
  with next_stage_ex [of st] show ?thesis
    unfolding Ready using user_step.bad_request [OF q, of valid] user_step.send [OF q, of valid]
    by (cases "valid verb url") blast+
next
  case Jittering
  show ?thesis unfolding Jittering by (intro exI, rule user_step.think [of 0]) simp_all
next
  case Top
  show ?thesis unfolding Top using user_step.stop [where valid = valid and u = u, OF TrueI] by blast
next
  case (InFlight st start)
  show ?thesis unfolding InFlight using next_stage_ex [of st] user_step.cancelled [where valid = valid and u = u, OF TrueI] by blast
next
  case (Answered st code d)
  show ?thesis unfolding Answered using next_stage_ex [of st] user_step.record_answer [where valid = valid and u = u, OF TrueI] by blast
next
  case (Failing st)
  show ?thesis unfolding Failing using next_stage_ex [of st] user_step.record_error [where valid = valid and u = u] by blast
next
  case (Thinking until)
  show ?thesis unfolding Thinking using user_step.leave [where valid = valid and u = u, OF TrueI] by blast
qed (use assms in simp)

definition exits :: "(string \<Rightarrow> string \<Rightarrow> bool) \<Rightarrow> load_plan \<Rightarrow> load_state \<Rightarrow> bool" where
  "exits valid plan s \<longleftrightarrow> (\<exists>evs s'. load_run valid plan s evs s' \<and> ld_main s' = Ended)"

lemma load_run_first:
  assumes "load_run valid plan s' evs t" "load_step valid plan s ev s'" "ld_main s \<noteq> Ended"
  shows "load_run valid plan s (ev # evs) t"
  using assms
proof (induction rule: load_run.induct)
  case begin_run
  then show ?case using load_run.next_step [OF load_run.begin_run] by fastforce
next
  case (next_step evs t e t')
  from load_run.next_step [OF next_step.IH [OF next_step.prems] next_step.hyps(2,3)] show ?case by simp
qed

lemma exits_step: "load_step valid plan s ev s' \<Longrightarrow> ld_main s \<noteq> Ended \<Longrightarrow> exits valid plan s' \<Longrightarrow> exits valid plan s"
  using load_run_first unfolding exits_def by blast

lemma exits_now: "ld_main s = Ended \<Longrightarrow> exits valid plan s"
  using load_run.begin_run unfolding exits_def by blast

lemma exits_main:
  assumes "ld_main s \<noteq> Idle"
  shows "exits valid plan s"
proof -
  have 1: "exits valid plan s" if "ld_main s = Printing x" for s x
  proof -
    have "print_step Ended (ld_stats s, ld_main s) (Printed x) (ld_stats s, Ended)"
      unfolding that by (rule print_step.put_line)
    from exits_step [OF load_step.main_print [OF this]] that show ?thesis by (simp add: exits_now)
  qed
  have 2: "exits valid plan s" if "ld_main s = Snapshotting (ls, cs, es)" for s ls cs es
  proof -
    have "print_step Ended (ld_stats s, ld_main s) (Lost (errors (ld_stats s) - es)) (new_stats, Printing (ls, cs, es))"
      unfolding that by (rule print_step.store)
    from exits_step [OF load_step.main_print [OF this]] that show ?thesis by (simp add: 1)
  qed
  show ?thesis using assms 1 2 exits_now by (cases "ld_main s") auto
qed

lemma exits_users:
  assumes "ld_main s = Idle" "ld_ctxDone s" "mutex_free s"
  shows "exits valid plan s"
  using assms
proof (induction "sum_list (map steps_left (ld_users s))" arbitrary: s rule: less_induct)
  case less
  show ?case
  proof (cases "list_all (\<lambda>pc. pc = Stopped) (ld_users s)")
    case True
    from exits_step [OF load_step.main_load [OF less.prems(1) True less.prems(3)]] less.prems(1)
    show ?thesis by (simp add: exits_main)
  next
    case False
    then obtain i where i: "i < length (ld_users s)" "ld_users s ! i \<noteq> Stopped" by (auto simp: list_all_length)
    from user_gets_on [OF i(2), of valid "lp_users plan ! i" "ld_now s" "ld_stats s"] obtain ev st pc where
      "user_step valid (lp_users plan ! i) (ld_ctxDone s) (ld_now s) (mutex_free s) (ld_stats s, ld_users s ! i) ev (st, pc)"
      using less.prems by auto
    note step = load_step.user [OF i(1) this]
    have lt: "steps_left pc < steps_left (ld_users s ! i)"
      using \<open>user_step _ _ _ _ _ _ _ _\<close> less.prems by (auto intro: user_steps_left)
    have "steps_left (ld_users s ! i) \<le> sum_list (map steps_left (ld_users s))"
      using i(1) by (intro member_le_sum_list) simp_all
    then have "sum_list (map steps_left ((ld_users s)[i := pc])) < sum_list (map steps_left (ld_users s))"
      using i(1) lt by (simp add: map_update sum_list_update)
    then show ?thesis
      using less.prems by (intro exits_step [OF step] less.hyps) (simp_all add: mutex_free_def)
  qed
qed

lemma exits_any: "exits valid plan s"
proof (cases "ld_main s = Idle")
  case main: True
  have free: "exits valid plan s" if s: "ld_main s = Idle" "mutex_free s" for s
  proof -
    have late: "exits valid plan s" if "ld_main s = Idle" "mutex_free s" "lp_deadline plan \<le> ld_now s" for s
      using exits_step [OF load_step.expire [OF that(3)]] that(1,2) by (simp add: exits_users mutex_free_def)
    show ?thesis
    proof (cases "lp_deadline plan \<le> ld_now s")
      case False
      then have "0 < lp_deadline plan - ld_now s" by simp
      from exits_step [OF load_step.pass [OF this]] s show ?thesis by (simp add: late mutex_free_def)
    qed (use s late in blast)
  qed
  show ?thesis
  proof (cases "ld_reporter s")
    case (Snapshotting x)
    obtain ls cs es where x: "x = (ls, cs, es)" by (rule prod_cases3)
    have "print_step Idle (ld_stats s, ld_reporter s) (Lost (errors (ld_stats s) - es)) (new_stats, Printing (ls, cs, es))"
      unfolding Snapshotting x by (rule print_step.store)
    from exits_step [OF load_step.report [OF this]] main show ?thesis by (simp add: free mutex_free_def)
  qed (use main in \<open>simp_all add: mutex_free_def free\<close>)
qed (rule exits_main)

section \<open>One user alone\<close>

text \<open>
  The steps are those of the code of one user in \<open>Loadtest\<close>: what \<open>runUser\<close> does from its start to
  its return, a user of the step relation can do.
\<close>

definition user_moves ::
  "(string \<Rightarrow> string \<Rightarrow> bool) \<Rightarrow> string \<times> string \<times> duration \<Rightarrow> stats \<times> user_pc \<Rightarrow> stats \<times> user_pc \<Rightarrow> bool" where
  "user_moves valid u x y \<longleftrightarrow> (\<exists>ctxDone now ev. user_step valid u ctxDone now True x ev y)"

lemma user_movesI: "user_step valid u ctxDone now True x ev y \<Longrightarrow> user_moves valid u x y"
  unfolding user_moves_def by blast

lemma doReq_moves:
  assumes "stage_request (fst u) st = (verb, url)" "next_stage st pc"
  shows "(user_moves (ue_validRequest env) u)\<^sup>*\<^sup>* (s, Ready st) (fst (doReq env verb url body token (s, w)), pc)"
proof (cases "ue_validRequest env verb url")
  case False
  then show ?thesis
    using user_movesI [OF user_step.bad_request [where valid = "ue_validRequest env", OF assms(1) False assms(2)]] by (auto simp: doReq_def)
next
  case True
  let ?M = "user_moves (ue_validRequest env) u"
  have send: "?M (s, Ready st) (s, InFlight st (ue_now env w))"
    by (rule user_movesI [OF user_step.send [where valid = "ue_validRequest env", OF assms(1) True]])
  define q where "q = \<lparr>lq_Method = verb, lq_URL = url, lq_Body = body,
    lq_Header = (let h = (if body \<noteq> [] then header_Set ''Content-Type'' ''application/json'' empty_header else empty_header)
      in if token \<noteq> [] then header_Set ''Authorization'' (''Bearer '' @ token) h else h)\<rparr>"
  obtain resp w' where r: "ue_Do env q w = (resp, w')" by fastforce
  have req: "fst (doReq env verb url body token (s, w)) =
      (case resp of None \<Rightarrow> if ue_ctxErr env w' then s else recordError s
       | Some code \<Rightarrow> record_request code (ue_now env w' - ue_now env w) s)"
    using r True by (simp add: doReq_def q_def Let_def split: option.split)
  have "?M\<^sup>*\<^sup>* (s, InFlight st (ue_now env w)) (fst (doReq env verb url body token (s, w)), pc)"
  proof (cases resp)
    case (Some code)
    have "?M\<^sup>*\<^sup>* (s, InFlight st (ue_now env w)) (s, Answered st code (ue_now env w' - ue_now env w))"
      by (rule r_into_rtranclp, rule user_movesI [OF user_step.answered])
    also have "?M (s, Answered st code (ue_now env w' - ue_now env w))
        (record_request code (ue_now env w' - ue_now env w) s, pc)"
      by (rule user_movesI [OF user_step.record_answer [OF TrueI assms(2)]])
    finally show ?thesis by (simp add: req Some)
  next
    case None
    have "?M (s, InFlight st (ue_now env w)) (s, pc)" by (rule user_movesI [OF user_step.cancelled [OF TrueI assms(2)]])
    moreover have "?M (s, InFlight st (ue_now env w)) (s, Failing st)"
      by (rule user_movesI [OF user_step.failed [OF not_False_eq_True [THEN iffD2, OF TrueI]]])
    moreover have "?M (s, Failing st) (recordError s, pc)" by (rule user_movesI [OF user_step.record_error [OF assms(2)]])
    ultimately show ?thesis by (simp add: req None) (meson converse_rtranclp_into_rtranclp r_into_rtranclp)
  qed
  with send show ?thesis by (rule converse_rtranclp_into_rtranclp)
qed

text \<open>What a user relies on: random numbers are in their range.\<close>

definition random_ok :: "'w user_env \<Rightarrow> bool" where
  "random_ok env \<longleftrightarrow> (\<forall>w. 0 \<le> fst (ue_IntN env 3 w) \<and> fst (ue_IntN env 3 w) < 3) \<and>
     (\<forall>w. 0 \<le> fst (ue_Float64 env w) \<and> fst (ue_Float64 env w) < 1)"

lemma user_round_moves:
  assumes "random_ok env" "user_round env gateway token think (s, w) = (stop, s', w')"
  shows "\<exists>until. (user_moves (ue_validRequest env) (gateway, token, think))\<^sup>*\<^sup>* (s, Ready Browsing) (s', Thinking until)"
proof -
  let ?M = "user_moves (ue_validRequest env) (gateway, token, think)"
  define a where "a = doReq env ''GET'' (gateway @ ''/catalog/products'') [] [] (s, w)"
  obtain i w1 where i: "ue_IntN env 3 (snd a) = (i, w1)" by fastforce
  define b where "b = doReq env ''GET'' (gateway @ ''/catalog/products/'' @ Itoa (i + 1)) [] [] (fst a, w1)"
  obtain q w2 where q: "ue_IntN env 3 (snd b) = (q, w2)" by fastforce
  define c where "c = doReq env ''POST'' (gateway @ ''/orders/orders'') (order_body (i + 1) (q + 1)) token (fst b, w2)"
  obtain f w3 where f: "ue_Float64 env (snd c) = (f, w3)" by fastforce
  have iq: "0 \<le> i" "i < 3" "0 \<le> q" "q < 3" "0 \<le> f" "f < 1"
    using assms(1) i q f unfolding random_ok_def by (metis fst_conv)+
  have "s' = fst c"
    using assms(2) unfolding user_round_def Let_def a_def [symmetric] i prod.case b_def [symmetric] q c_def [symmetric] f
    by (simp split: prod.splits)
  have "?M\<^sup>*\<^sup>* (s, Ready Browsing) (fst a, Ready (Viewing (i + 1)))"
    unfolding a_def by (rule doReq_moves) (simp_all add: next_stage.viewing iq)
  also have "?M\<^sup>*\<^sup>* (fst a, Ready (Viewing (i + 1))) (fst b, Ready (Ordering (i + 1) (q + 1)))"
    unfolding b_def by (rule doReq_moves) (simp_all add: next_stage.ordering iq)
  also have "?M\<^sup>*\<^sup>* (fst b, Ready (Ordering (i + 1) (q + 1))) (fst c, Jittering)"
    unfolding c_def by (rule doReq_moves) (simp_all add: next_stage.thinking)
  also have "?M (fst c, Jittering) (fst c, Thinking (0 + go_trunc (of_int (snd (snd (gateway, token, think))) * (1 / 2 + f))))"
    by (rule user_movesI [OF user_step.think [OF iq(5,6)]])
  finally show ?thesis unfolding \<open>s' = fst c\<close> by blast
qed

lemma runUser_moves:
  "runUser env gateway token think sw = Some sw' \<Longrightarrow> random_ok env \<Longrightarrow>
   (user_moves (ue_validRequest env) (gateway, token, think))\<^sup>*\<^sup>* (fst sw, Top) (fst sw', Stopped)"
proof (induction rule: runUser.raw_induct [rotated, consumes 1, case_names step])
  case (step run env gateway token think sw sw')
  let ?M = "user_moves (ue_validRequest env) (gateway, token, think)"
  note moves = user_movesI [where valid = "ue_validRequest env" and u = "(gateway, token, think)"]
  show ?case
  proof (cases "ue_ctxErr env (snd sw)")
    case True
    then have "sw' = sw" using step.hyps by simp
    moreover have "?M (fst sw, Top) (fst sw, Stopped)" by (rule moves [OF user_step.stop [OF TrueI]])
    ultimately show ?thesis by blast
  next
    case False
    obtain stop s1 w1 where round: "user_round env gateway token think sw = (stop, s1, w1)" by (rule prod_cases3)
    from user_round_moves [OF step.prems, of gateway token think "fst sw" "snd sw"] round obtain until where
      "?M\<^sup>*\<^sup>* (fst sw, Ready Browsing) (s1, Thinking until)" by auto
    moreover have "?M (fst sw, Top) (fst sw, Ready Browsing)"
      by (rule moves [where ctxDone = False, OF user_step.browse]) simp
    ultimately have thinking: "?M\<^sup>*\<^sup>* (fst sw, Top) (s1, Thinking until)" by (rule converse_rtranclp_into_rtranclp [rotated])
    show ?thesis
    proof (cases stop)
      case True
      with step.hyps False round have "sw' = (s1, w1)" by simp
      moreover have "?M (s1, Thinking until) (s1, Stopped)" by (rule moves [OF user_step.leave [OF TrueI]])
      ultimately show ?thesis using thinking by (simp add: rtranclp.rtrancl_into_rtrancl)
    next
      case go: False
      with step.hyps False round have "run env gateway token think (s1, w1) = Some sw'" by simp
      from step.IH [OF this step.prems] have "?M\<^sup>*\<^sup>* (s1, Top) (fst sw', Stopped)" by simp
      moreover have "?M (s1, Thinking until) (s1, Top)" by (rule moves [OF user_step.wake [OF order_refl]])
      ultimately show ?thesis using thinking by (meson converse_rtranclp_into_rtranclp rtranclp_trans)
    qed
  qed
qed

section \<open>Properties\<close>

fun answer_of :: "load_event \<Rightarrow> int list" where
  "answer_of (Recorded code d) = [code]"
| "answer_of _ = []"

fun loss_of :: "load_event \<Rightarrow> int" where
  "loss_of (Lost k) = k"
| "loss_of _ = 0"

lemma weigh_answers:
  "sum_list (map (weigh (\<lambda>_. 1) 0) evs) = int (length (concat (map answer_of evs)))"
  "sum_list (map (weigh (\<lambda>c. of_bool (c = code)) 0) evs) = int (count_list (concat (map answer_of evs)) code)"
  "sum_list (map (weigh (\<lambda>_. 0) 1) evs) = int (count_list evs Erred)"
proof (induction evs)
  case (Cons ev evs)
  { case 1 with Cons show ?case by (cases ev) simp_all }
  { case 2 with Cons show ?case by (cases ev) simp_all }
  { case 3 with Cons show ?case by (cases ev) simp_all }
qed simp_all

lemma gone_losses:
  "sum_list (map (gone (\<lambda>_. 0) (\<lambda>k. k)) evs) = sum_list (map loss_of evs)"
  "sum_list (map (gone (\<lambda>_. 0) (\<lambda>_. 0)) evs) = 0"
proof (induction evs)
  case (Cons ev evs)
  { case 1 with Cons show ?case by (cases ev) simp_all }
  { case 2 with Cons show ?case by (cases ev) simp_all }
qed simp_all

lemma load_start_ok:
  assumes "user_flow_main load sign now flags = Inr plan"
  shows "load_wf (load_start t plan)" "stats_within 0 (ld_stats (load_start t plan))" "snaps_ok (load_start t plan)"
    "m ([], Map.empty, 0) = 0 \<Longrightarrow> stock m (load_start t plan) = 0"
proof -
  have "lp_stats plan = new_stats" using assms by (auto simp: user_flow_main_def split: sum.splits)
  then show "load_wf (load_start t plan)" "stats_within 0 (ld_stats (load_start t plan))" "snaps_ok (load_start t plan)"
    "m ([], Map.empty, 0) = 0 \<Longrightarrow> stock m (load_start t plan) = 0"
    by (simp_all add: load_wf_def load_start_def stats_within_new fresh_snap_def snaps_ok_def snap_ok_def
        stock_def snap_of_def) (simp_all add: new_stats_def)
qed

text \<open>
  C30: the report of a load test adds up. However the users, the reporter and \<^verbatim>\<open>main\<close> are interleaved,
  when \<^verbatim>\<open>main\<close> has returned the printed lines count every answer that was recorded once, in the
  column of requests and under its status code, and every error once, with two exceptions: the
  errors that were recorded while a snapshot had read the counter and not yet cleared it, and
  the snapshot the reporter had taken and not yet printed, for which \<^verbatim>\<open>main\<close> does not wait.
\<close>
theorem load_run_accounts:
  assumes "user_flow_main load sign now flags = Inr plan"
    and "load_run valid plan (load_start now plan) evs s" "int (length evs) \<le> maxInt" "ld_main s = Ended"
  shows "sum_list (map (\<lambda>l. int (il_reqs l)) (stdout evs)) + held (\<lambda>x. int (length (fst x))) (ld_reporter s) =
      int (length (concat (map answer_of evs))) \<and>
    (\<forall>code. sum_list (map (\<lambda>l. code_count code (il_codes l)) (stdout evs)) +
      held (\<lambda>x. code_count code (fst (snd x))) (ld_reporter s) = int (count_list (concat (map answer_of evs)) code)) \<and>
    sum_list (map il_errs (stdout evs)) + held (\<lambda>x. snd (snd x)) (ld_reporter s) + sum_list (map loss_of evs) =
      int (count_list evs Erred)"
proof -
  note start = load_start_ok [OF assms(1)]
  have ok: "snap_ok x" if "Printed x \<in> set evs" for x using snaps_ok_run [OF assms(2) start(3)] that by blast
  have "ld_stats s = new_stats" using load_wf_run [OF assms(2) start(1)] assms(4) by (simp add: load_wf_def)
  then have stock: "stock m s = m ([], Map.empty, 0) + held m (ld_reporter s)" for m
    using assms(4) by (simp add: stock_def snap_of_def new_stats_def)
  have "code_count code Map.empty = 0" for code by (simp add: code_count_def)
  then show ?thesis
    using reqs.run_stock [OF assms(2) start(1,2) assms(3)] errs.run_stock [OF assms(2) start(1,2) assms(3)]
      cods.run_stock [OF assms(2) start(1,2) assms(3)] ok
    by (simp add: start(4) stock weigh_answers gone_losses
        stdout_tally [of _ "\<lambda>l. int (il_reqs l)" "\<lambda>x. int (length (fst x))"]
        stdout_tally [of _ il_errs "\<lambda>x. snd (snd x)"]
        stdout_tally [of _ "\<lambda>l. code_count code (il_codes l)" "\<lambda>x. code_count code (fst (snd x))" for code] line_of_tally)
      (simp add: add.commute)
qed


text \<open>
  A test with one user that gets one answer, at whose end the reporter holds a snapshot with this
  answer: \<^verbatim>\<open>main\<close> returns, and no line was printed.
\<close>

definition one_user :: load_plan where
  "one_user =
     \<lparr>lp_MaxIdleConns = 500, lp_MaxIdleConnsPerHost = 500, lp_IdleConnTimeout = 90 * 10 ^ 9,
      lp_ClientTimeout = 10 * 10 ^ 9, lp_deadline = 10, lp_stats = new_stats,
      lp_users = [(''http://localhost:8080'', ''token'', 300 * 10 ^ 6)], lp_interval = 5\<rparr>"

lemma one_user_main:
  "user_flow_main (\<lambda>_. Inr () :: unit load_error + unit) (\<lambda>_ _. Inr ''token'') 0
     (load_defaults\<lparr>lf_users := 1, lf_duration := 10, lf_interval := 5\<rparr>) = Inr one_user"
  by (simp add: user_flow_main_def token_for_def SignToken_def load_defaults_def one_user_def)

definition one_answer :: stats where
  "one_answer = \<lparr>latencies = [0], codes = [200 \<mapsto> 1], errors = 0\<rparr>"

definition one_state :: "time \<Rightarrow> bool \<Rightarrow> bool \<times> time \<Rightarrow> stats \<Rightarrow> user_pc \<Rightarrow> printer \<Rightarrow> printer \<Rightarrow> load_state" where
  "one_state now d t st pc r m =
     \<lparr>ld_now = now, ld_ctxDone = d, ld_tick = fst t, ld_nextTick = snd t, ld_stats = st, ld_users = [pc],
      ld_reporter = r, ld_main = m\<rparr>"

abbreviation one_run :: "load_event list \<Rightarrow> load_state \<Rightarrow> bool" where
  "one_run \<equiv> load_run (\<lambda>_ _. True) one_user (load_start 0 one_user)"

lemma one_run_start: "one_run [] (one_state 0 False (False, 5) new_stats Top Idle Idle)"
  using load_run.begin_run [of "\<lambda>_ _. True" one_user "load_start 0 one_user"]
  by (simp add: load_start_def one_user_def one_state_def)

lemma one_run_user:
  assumes "one_run evs (one_state now d t st pc r Idle)"
    and "user_step (\<lambda>_ _. True) (lp_users one_user ! 0) d now (\<not> snapshotting r) (st, pc) ev (st', pc')"
  shows "one_run (evs @ [ev]) (one_state now d t st' pc' r Idle)"
  using load_run.next_step [OF assms(1) _ load_step.user [of 0 _ _ _ ev st' pc']] assms(2)
  by (simp add: one_state_def mutex_free_def)

lemma one_run_step:
  assumes "one_run evs s" "load_step (\<lambda>_ _. True) one_user s ev s'" "ld_main s \<noteq> Ended" "s' = t"
  shows "one_run (evs @ [ev]) t"
  using load_run.next_step [OF assms(1,3,2)] assms(4) by simp

lemma one_run_answered:
  "one_run [Quiet, Quiet, Quiet, Recorded 200 0] (one_state 0 False (False, 5) one_answer (Ready (Viewing 1)) Idle Idle)"
proof -
  have 1: "one_run [Quiet] (one_state 0 False (False, 5) new_stats (Ready Browsing) Idle Idle)"
    using one_run_user [OF one_run_start user_step.browse] by simp
  have 2: "one_run [Quiet, Quiet] (one_state 0 False (False, 5) new_stats (InFlight Browsing 0) Idle Idle)"
    using one_run_user [OF 1 user_step.send] by simp
  have 3: "one_run [Quiet, Quiet, Quiet] (one_state 0 False (False, 5) new_stats (Answered Browsing 200 0) Idle Idle)"
    using one_run_user [OF 2 user_step.answered [where code = 200]] by simp
  have "record_request 200 0 new_stats = one_answer"
    by (simp add: record_request_def new_stats_def one_answer_def is_i64_def maxInt_def)
  then show ?thesis
    using one_run_user [OF 3 user_step.record_answer [OF _ next_stage.viewing [of 0]]] by simp
qed

lemma one_run_held:
  "one_run [Quiet, Quiet, Quiet, Recorded 200 0, Quiet, Quiet, Quiet, Lost 0, Quiet]
     (one_state 10 True (False, 10) new_stats (Ready (Viewing 1)) (Printing (snap_of one_answer)) Idle)"
proof -
  note st = one_state_def
  have 1: "one_run [Quiet, Quiet, Quiet, Recorded 200 0, Quiet]
      (one_state 10 False (False, 5) one_answer (Ready (Viewing 1)) Idle Idle)"
    using one_run_step [OF one_run_answered load_step.pass [of 10]] by (simp add: st)
  have 2: "one_run [Quiet, Quiet, Quiet, Recorded 200 0, Quiet, Quiet]
      (one_state 10 False (True, 10) one_answer (Ready (Viewing 1)) Idle Idle)"
    using one_run_step [OF 1 load_step.tick] by (simp add: st one_user_def)
  have 3: "one_run [Quiet, Quiet, Quiet, Recorded 200 0, Quiet, Quiet, Quiet]
      (one_state 10 False (False, 10) one_answer (Ready (Viewing 1)) (Snapshotting (snap_of one_answer)) Idle)"
    using one_run_step [OF 2 load_step.report_load] by (simp add: st mutex_free_def)
  have "print_step Idle (one_answer, Snapshotting (snap_of one_answer)) (Lost 0) (new_stats, Printing (snap_of one_answer))"
    using print_step.store [of Idle one_answer "[0]" "[200 \<mapsto> 1]" 0] by (simp add: snap_of_def one_answer_def)
  then have 4: "one_run [Quiet, Quiet, Quiet, Recorded 200 0, Quiet, Quiet, Quiet, Lost 0]
      (one_state 10 False (False, 10) new_stats (Ready (Viewing 1)) (Printing (snap_of one_answer)) Idle)"
    using one_run_step [OF 3 load_step.report] by (simp add: st)
  show ?thesis using one_run_step [OF 4 load_step.expire] by (simp add: st one_user_def)
qed

definition lost_report :: "load_event list" where
  "lost_report =
     [Quiet, Quiet, Quiet, Recorded 200 0, Quiet, Quiet, Quiet, Lost 0, Quiet] @ replicate 7 Quiet @
     [Lost 0, Printed ([], Map.empty, 0)]"

lemma one_run_cancelled:
  assumes "one_run evs (one_state now True t st (Ready (Viewing 1)) r Idle)"
  shows "one_run (evs @ replicate 6 Quiet) (one_state now True t st Stopped r Idle)"
proof -
  have 1: "one_run (evs @ [Quiet]) (one_state now True t st (InFlight (Viewing 1) now) r Idle)"
    using one_run_user [OF assms user_step.send] by simp
  have 2: "one_run (evs @ [Quiet, Quiet]) (one_state now True t st (Ready (Ordering 1 1)) r Idle)"
    using one_run_user [OF 1 user_step.cancelled [OF _ next_stage.ordering [of 0]]] by simp
  have 3: "one_run (evs @ [Quiet, Quiet, Quiet]) (one_state now True t st (InFlight (Ordering 1 1) now) r Idle)"
    using one_run_user [OF 2 user_step.send] by simp
  have 4: "one_run (evs @ [Quiet, Quiet, Quiet, Quiet]) (one_state now True t st Jittering r Idle)"
    using one_run_user [OF 3 user_step.cancelled [OF _ next_stage.thinking]] by simp
  have "\<exists>until. one_run (evs @ [Quiet, Quiet, Quiet, Quiet, Quiet]) (one_state now True t st (Thinking until) r Idle)"
    using one_run_user [OF 4 user_step.think [of 0]] by auto
  then obtain until where
    5: "one_run (evs @ [Quiet, Quiet, Quiet, Quiet, Quiet]) (one_state now True t st (Thinking until) r Idle)" ..
  show ?thesis using one_run_user [OF 5 user_step.leave] by (simp add: numeral_eq_Suc)
qed

lemma one_run_exited:
  "one_run lost_report
     (one_state 10 True (False, 10) new_stats Stopped (Printing (snap_of one_answer)) Ended)"
proof -
  note st = one_state_def
  note 1 = one_run_cancelled [OF one_run_held]
  have 2: "one_run ([Quiet, Quiet, Quiet, Recorded 200 0, Quiet, Quiet, Quiet, Lost 0, Quiet] @ replicate 7 Quiet)
      (one_state 10 True (False, 10) new_stats Stopped (Printing (snap_of one_answer)) (Snapshotting ([], Map.empty, 0)))"
    using one_run_step [OF 1 load_step.main_load]
    by (simp add: st mutex_free_def snap_of_def new_stats_def numeral_eq_Suc)
  have "print_step Ended (new_stats, Snapshotting ([], Map.empty, 0)) (Lost 0) (new_stats, Printing ([], Map.empty, 0))"
    using print_step.store [of Ended new_stats "[]" Map.empty 0] by (simp add: new_stats_def)
  then have 3: "one_run (([Quiet, Quiet, Quiet, Recorded 200 0, Quiet, Quiet, Quiet, Lost 0, Quiet] @ replicate 7 Quiet) @ [Lost 0])
      (one_state 10 True (False, 10) new_stats Stopped (Printing (snap_of one_answer)) (Printing ([], Map.empty, 0)))"
    using one_run_step [OF 2 load_step.main_print] by (simp add: st)
  show ?thesis
    using one_run_step [OF 3 load_step.main_print [where ev = "Printed ([], Map.empty, 0)" and st = new_stats and p = Ended]]
    by (simp add: st lost_report_def print_step.put_line)
qed

theorem load_run_accounts_witness:
  "\<exists>s. load_run (\<lambda>_ _. True) one_user (load_start 0 one_user) lost_report s \<and> ld_main s = Ended \<and>
     stdout lost_report = [] \<and> ld_reporter s = Printing ([0], [200 \<mapsto> 1], 0) \<and>
     sum_list (map (\<lambda>l. int (il_reqs l)) (stdout lost_report)) + held (\<lambda>x. int (length (fst x))) (ld_reporter s) =
       int (length (concat (map answer_of lost_report)))"
proof -
  let ?s = "one_state 10 True (False, 10) new_stats Stopped (Printing (snap_of one_answer)) Ended"
  have "int (length lost_report) \<le> maxInt" "ld_main ?s = Ended" "ld_reporter ?s = Printing ([0], [200 \<mapsto> 1], 0)"
    by (simp_all add: lost_report_def one_state_def maxInt_def snap_of_def one_answer_def)
  moreover have "stdout lost_report = []" by (simp add: stdout_def lost_report_def interval_report_def)
  ultimately show ?thesis
    using one_run_exited load_run_accounts [OF one_user_main one_run_exited] by blast
qed


end
