(* ===== verification/Loadtest_Report.thy ===== *)
theory Loadtest_Report
  imports Loadtest_Run
begin

text \<open>
  The text of the load test's report, \<^verbatim>\<open>loadtest/scenarios/user_flow.go\<close>: the head that \<^verbatim>\<open>main\<close> prints and
  the lines of \<^verbatim>\<open>printInterval\<close>, with \<^verbatim>\<open>time.Duration.String\<close> and the padding of \<^verbatim>\<open>fmt\<close>, which counts
  runes. A string is a list of bytes in UTF-8. The time of day, \<^verbatim>\<open>time.Now().Format("15:04")\<close>, and the
  order in which Go iterates over the codes are arguments.
\<close>

section \<open>Durations\<close>

primrec frac_digits :: "nat \<Rightarrow> nat \<Rightarrow> string" where
  "frac_digits 0 u = []"
| "frac_digits (Suc prec) u = frac_digits prec (u div 10) @ [digit (u mod 10)]"

definition strip_zeros :: "string \<Rightarrow> string" where
  "strip_zeros ds = rev (dropWhile (\<lambda>c. c = CHR ''0'') (rev ds))"

definition fmtFrac :: "nat \<Rightarrow> nat \<Rightarrow> string \<times> nat" where
  "fmtFrac u prec =
     (let ds = strip_zeros (frac_digits prec u)
      in (if ds = [] then [] else CHR ''.'' # ds, u div 10 ^ prec))"

definition micro :: string where
  "micro = [CHR 0xC2, CHR 0xB5]"

definition Duration_String :: "duration \<Rightarrow> string" where
  "Duration_String d =
     (let u = nat \<bar>d\<bar>;
          s = (if u < 10 ^ 9 then
                 if u = 0 then ''0s''
                 else
                   let (unit, prec) = (if u < 10 ^ 3 then (''n'', 0) else if u < 10 ^ 6 then (micro, 3) else (''m'', 6));
                       (f, v) = fmtFrac u prec
                   in nat_dec v @ f @ unit @ ''s''
               else
                 let (f, v) = fmtFrac u 9;
                     s = nat_dec (v mod 60) @ f @ ''s'';
                     m = v div 60
                 in if m = 0 then s
                    else
                      let s = nat_dec (m mod 60) @ ''m'' @ s;
                          h = m div 60
                      in if h = 0 then s else nat_dec h @ ''h'' @ s)
      in if d < 0 then CHR ''-'' # s else s)"

section \<open>Lines\<close>

definition rune_count :: "string \<Rightarrow> nat" where
  "rune_count s = length (filter (\<lambda>c. \<not> (128 \<le> (of_char c :: nat) \<and> (of_char c :: nat) < 192)) s)"

definition pad_left :: "nat \<Rightarrow> string \<Rightarrow> string" where
  "pad_left n s = replicate (n - rune_count s) (CHR '' '') @ s"

definition pad_right :: "nat \<Rightarrow> string \<Rightarrow> string" where
  "pad_right n s = s @ replicate (n - rune_count s) (CHR '' '')"

definition newline :: string where
  "newline = [CHR 0x0A]"

text \<open>The six columns before the status codes: \<^verbatim>\<open>%-6s  %7s  %8s  %8s  %8s  %6s  \<close>.\<close>

definition columns :: "string \<Rightarrow> string \<Rightarrow> string \<Rightarrow> string \<Rightarrow> string \<Rightarrow> string \<Rightarrow> string" where
  "columns now reqs p50 p95 p99 errs =
     pad_right 6 now @ ''  '' @ pad_left 7 reqs @ ''  '' @ pad_left 8 p50 @ ''  '' @ pad_left 8 p95 @ ''  '' @
     pad_left 8 p99 @ ''  '' @ pad_left 6 errs @ ''  ''"

definition report_head :: "load_flags \<Rightarrow> string" where
  "report_head flags =
     ''Users: '' @ Itoa (lf_users flags) @ '' | Duration: '' @ Duration_String (lf_duration flags) @
     '' | Think: '' @ Duration_String (lf_think flags) @ '' | Target: '' @ lf_gateway flags @ newline @ newline @
     columns ''TIME'' ''REQS'' ''P50'' ''P95'' ''P99'' ''ERRS'' @ ''STATUS CODES'' @ newline"

definition codeStr :: "(int \<times> int) list \<Rightarrow> string" where
  "codeStr cs =
     fold (\<lambda>(code, count) s. (if s \<noteq> [] then s @ '' '' else s) @ Itoa code @ '':'' @ Itoa count) cs []"

definition percentile_text :: "(duration \<times> duration \<times> duration) option \<Rightarrow> string \<times> string \<times> string" where
  "percentile_text p =
     (case p of None \<Rightarrow> (''-'', ''-'', ''-'')
      | Some (p50, p95, p99) \<Rightarrow> (Duration_String p50, Duration_String p95, Duration_String p99))"

definition line_text :: "((int \<rightharpoonup> int) \<Rightarrow> (int \<times> int) list) \<Rightarrow> string \<Rightarrow> interval_line \<Rightarrow> string" where
  "line_text iter now l =
     (case percentile_text (il_percentiles l) of
        (p50, p95, p99) \<Rightarrow>
          columns now (Itoa (int (il_reqs l))) p50 p95 p99 (Itoa (il_errs l)) @ codeStr (iter (il_codes l)) @ newline)"

section \<open>Widths\<close>

lemma rune_count_append [simp]: "rune_count (s @ t) = rune_count s + rune_count t"
  by (simp add: rune_count_def)

lemma rune_count_le: "rune_count s \<le> length s"
  by (simp add: rune_count_def)

lemma rune_count_spaces: "rune_count (replicate n (CHR '' '')) = n"
  by (simp add: rune_count_def filter_replicate)

lemma pad_width: "rune_count s \<le> n \<Longrightarrow> rune_count (pad_left n s) = n" "rune_count s \<le> n \<Longrightarrow> rune_count (pad_right n s) = n"
  by (simp_all add: pad_left_def pad_right_def rune_count_spaces)

lemma nat_dec_length: "n < 10 ^ k \<Longrightarrow> 0 < k \<Longrightarrow> length (nat_dec n) \<le> k"
proof (induction k arbitrary: n)
  case (Suc k)
  show ?case
  proof (cases "n < 10")
    case True
    then show ?thesis by (simp add: nat_dec.simps [of n])
  next
    case False
    with Suc.prems have "0 < k" by (cases k) auto
    moreover have "n div 10 < 10 ^ k" using Suc.prems by (simp add: div_less_iff_less_mult mult.commute)
    ultimately show ?thesis using Suc.IH [of "n div 10"] False by (simp add: nat_dec.simps [of n])
  qed
qed simp

lemma frac_digits_length: "length (frac_digits p u) = p"
  by (induction p arbitrary: u) simp_all

lemma frac_digits_split: "frac_digits (p + k) u = frac_digits p (u div 10 ^ k) @ frac_digits k u"
proof (induction k arbitrary: u)
  case (Suc k)
  show ?case using Suc.IH [of "u div 10"] by (simp add: div_mult2_eq)
qed simp

lemma digit_0: "digit 0 = CHR ''0''"
  by code_simp

lemma frac_digits_zero: "10 ^ k dvd u \<Longrightarrow> frac_digits k u = replicate k (CHR ''0'')"
proof (induction k arbitrary: u)
  case (Suc k)
  then obtain v where "u = 10 ^ Suc k * v" by (auto simp: dvd_def)
  then have "u div 10 = 10 ^ k * v" "u mod 10 = 0" by (simp_all add: mult.assoc)
  with Suc.IH [of "u div 10"] show ?case by (simp add: digit_0 replicate_append_same)
qed simp

lemma fmtFrac_width:
  assumes "10 ^ k dvd u" "k \<le> prec"
  shows "length (fst (fmtFrac u prec)) \<le> (if k = prec then 0 else prec - k + 1)"
proof -
  have "frac_digits prec u = frac_digits (prec - k) (u div 10 ^ k) @ replicate k (CHR ''0'')"
    using frac_digits_split [of "prec - k" k u] frac_digits_zero [OF assms(1)] assms(2) by simp
  then have "strip_zeros (frac_digits prec u) = strip_zeros (frac_digits (prec - k) (u div 10 ^ k))"
    by (simp add: strip_zeros_def) (simp add: dropWhile_append)
  moreover have "length (strip_zeros ds) \<le> length ds" for ds
    by (simp add: strip_zeros_def) (metis length_dropWhile_le length_rev)
  from this [of "frac_digits (prec - k) (u div 10 ^ k)"]
  have "length (strip_zeros (frac_digits (prec - k) (u div 10 ^ k))) \<le> prec - k" by (simp add: frac_digits_length)
  ultimately show ?thesis using assms(2) by (auto simp: fmtFrac_def Let_def)
qed

lemma Duration_String_short:
  assumes "10 ^ 5 dvd u" "u < 60 * 10 ^ 9"
  shows "rune_count (Duration_String (int u)) \<le> 8"
proof -
  have frac: "length (fst (fmtFrac u 3)) = 0" "length (fst (fmtFrac u 6)) \<le> 2" "length (fst (fmtFrac u 9)) \<le> 5"
    using fmtFrac_width [of 3 u 3] fmtFrac_width [of 5 u 6] fmtFrac_width [of 5 u 9] assms(1)
      dvd_trans [OF le_imp_power_dvd [of 3 5 10] assms(1)] by simp_all
  note len = rune_count_le [of "nat_dec _", THEN order_trans, OF nat_dec_length]
  consider "u = 0" | "u \<ge> 10 ^ 5" "u < 10 ^ 6" | "u \<ge> 10 ^ 6" "u < 10 ^ 9" | "u \<ge> 10 ^ 9"
    using assms(1) by (metis dvd_imp_le gr0I not_le)
  then show ?thesis
  proof cases
    case 1
    then show ?thesis by (simp add: Duration_String_def rune_count_def)
  next
    case 2
    have "rune_count (nat_dec (u div 1000)) \<le> 3" using 2 by (intro len) (simp_all add: div_less_iff_less_mult)
    then show ?thesis
      using 2 frac(1) by (simp add: Duration_String_def fmtFrac_def Let_def split: if_splits)
        (simp add: rune_count_def micro_def)
  next
    case 3
    have "rune_count (nat_dec (u div 10 ^ 6)) \<le> 3" using 3 by (intro len) (simp_all add: div_less_iff_less_mult)
    moreover have "rune_count (fst (fmtFrac u 6)) \<le> 2" using rune_count_le frac(2) by (rule order_trans)
    moreover have "snd (fmtFrac u 6) = u div 10 ^ 6" by (simp add: fmtFrac_def Let_def)
    moreover have "rune_count ''ms'' = 2" by (simp add: rune_count_def)
    ultimately show ?thesis
      using 3 by (simp add: Duration_String_def Let_def case_prod_beta)
  next
    case 4
    have "u div 10 ^ 9 < 60" using assms(2) by (simp add: div_less_iff_less_mult)
    then have "rune_count (nat_dec (u div 10 ^ 9)) \<le> 2" by (intro len) simp_all
    moreover have "rune_count (fst (fmtFrac u 9)) \<le> 5" using rune_count_le frac(3) by (rule order_trans)
    moreover have "snd (fmtFrac u 9) = u div 10 ^ 9" by (simp add: fmtFrac_def Let_def)
    moreover have "rune_count ''s'' = 1" by (simp add: rune_count_def)
    ultimately show ?thesis
      using 4 \<open>u div 10 ^ 9 < 60\<close> by (simp add: Duration_String_def Let_def case_prod_beta)
  qed
qed

lemma Duration_String_width:
  assumes "0 \<le> d" "d < 60 * 10 ^ 9"
  shows "rune_count (Duration_String (Truncate d (100 * 1000))) \<le> 8"
proof -
  have "Truncate d (100 * 1000) = int (nat d div 10 ^ 5 * 10 ^ 5)"
    using assms(1) by (cases "d = 0") (simp_all add: Truncate_def minus_mod_eq_div_mult zdiv_int)
  moreover have "nat d div 10 ^ 5 * 10 ^ 5 < 60 * 10 ^ 9"
    using assms by (intro le_less_trans [OF div_times_less_eq_dividend]) simp
  ultimately show ?thesis using Duration_String_short [of "nat d div 10 ^ 5 * 10 ^ 5"] by (simp only: dvd_triv_right)
qed

lemma columns_width:
  assumes "rune_count now \<le> 6" "rune_count reqs \<le> 7" "rune_count p50 \<le> 8" "rune_count p95 \<le> 8" "rune_count p99 \<le> 8"
    and "rune_count errs \<le> 6"
  shows "rune_count (columns now reqs p50 p95 p99 errs) = 55"
proof -
  have "rune_count (CHR '' '' # s) = Suc (rune_count s)" for s by (simp add: rune_count_def)
  moreover have "rune_count [] = 0" by (simp add: rune_count_def)
  ultimately show ?thesis using assms by (simp add: columns_def pad_width)
qed

lemma Itoa_width:
  assumes "0 \<le> i" "i < 10 ^ k" "0 < k"
  shows "rune_count (Itoa i) \<le> k"
proof -
  have "nat i < 10 ^ k" using assms(1,2) by (simp add: nat_less_iff)
  from order_trans [OF rune_count_le nat_dec_length [OF this assms(3)]] show ?thesis using assms(1) by (simp add: Itoa_def)
qed

lemma interval_report_percentiles:
  assumes "interval_report ls cs es = Inr (Some l)"
  shows "il_reqs l = length ls" "il_errs l = es" "il_codes l = cs"
    and "il_percentiles l = None \<or> (\<exists>a \<in> set ls. \<exists>b \<in> set ls. \<exists>c \<in> set ls.
      il_percentiles l = Some (Truncate a (100 * 1000), Truncate b (100 * 1000), Truncate c (100 * 1000)))"
proof -
  show "il_reqs l = length ls" "il_errs l = es" "il_codes l = cs" using interval_report_total [of ls cs es] assms by auto
  show "il_percentiles l = None \<or> (\<exists>a \<in> set ls. \<exists>b \<in> set ls. \<exists>c \<in> set ls.
      il_percentiles l = Some (Truncate a (100 * 1000), Truncate b (100 * 1000), Truncate c (100 * 1000)))"
  proof (cases "ls = []")
    case True
    with assms show ?thesis by (auto simp: interval_report_def split: if_splits)
  next
    case False
    then have "sort ls \<noteq> []" by (metis length_0_conv length_sort)
    moreover have "sort ls ! (length ls * q div 100) \<in> set ls" if "q < 100" for q
      using percentile_sorted(2) [OF False that] by (metis length_sort nth_mem set_sort)
    from this [of 50] this [of 95] this [of 99] have
      "sort ls ! (length ls * 50 div 100) \<in> set ls" "sort ls ! (length ls * 95 div 100) \<in> set ls"
      "sort ls ! (length ls * 99 div 100) \<in> set ls" by simp_all
    ultimately show ?thesis
      using assms percentile_sorted(1) [OF False, of 50] percentile_sorted(1) [OF False, of 95]
        percentile_sorted(1) [OF False, of 99]
      by (auto simp: interval_report_def Let_def False)
  qed
qed

text \<open>
  The report is a table: with answers that took less than a minute, fewer than ten million of
  them and less than a million errors in an interval, the codes of a line start in the same
  column as the heading \<^verbatim>\<open>STATUS CODES\<close>, also where a latency is printed in microseconds, whose sign
  takes two bytes.
\<close>

lemma report_is_aligned:
  assumes "interval_report ls cs es = Inr (Some l)" "\<forall>d \<in> set ls. 0 \<le> d \<and> d < 60 * 10 ^ 9"
    and "length ls < 10 ^ 7" "0 \<le> es" "es < 10 ^ 6" "rune_count now \<le> 6"
  shows "\<exists>left. line_text iter now l = left @ codeStr (iter cs) @ newline \<and> rune_count left = 55"
    and "\<exists>head left. report_head flags = head @ newline @ left @ ''STATUS CODES'' @ newline \<and> rune_count left = 55"
proof -
  note l = interval_report_percentiles [OF assms(1)]
  obtain p50 p95 p99 where p: "percentile_text (il_percentiles l) = (p50, p95, p99)" by (rule prod_cases3)
  have "rune_count p50 \<le> 8 \<and> rune_count p95 \<le> 8 \<and> rune_count p99 \<le> 8"
    using l(4)
  proof
    assume "il_percentiles l = None"
    with p show ?thesis by (auto simp: percentile_text_def rune_count_def)
  next
    assume "\<exists>a \<in> set ls. \<exists>b \<in> set ls. \<exists>c \<in> set ls.
      il_percentiles l = Some (Truncate a (100 * 1000), Truncate b (100 * 1000), Truncate c (100 * 1000))"
    with p assms(2) show ?thesis by (auto simp only: percentile_text_def option.case prod.case prod.inject Duration_String_width)
  qed
  then have "rune_count (columns now (Itoa (int (il_reqs l))) p50 p95 p99 (Itoa (il_errs l))) = 55"
    using assms(3-6) l by (intro columns_width Itoa_width) simp_all
  then show "\<exists>left. line_text iter now l = left @ codeStr (iter cs) @ newline \<and> rune_count left = 55"
    by (auto simp: line_text_def p l(3))
  have "rune_count (columns ''TIME'' ''REQS'' ''P50'' ''P95'' ''P99'' ''ERRS'') = 55"
    by (intro columns_width) (simp_all add: rune_count_def)
  then show "\<exists>head left. report_head flags = head @ newline @ left @ ''STATUS CODES'' @ newline \<and> rune_count left = 55"
    unfolding report_head_def by (metis append.assoc)
qed

text \<open>The last column: the codes with their counts, one space between them.\<close>

lemma codeStr_Join: "codeStr cs = Join (map (\<lambda>(code, count). Itoa code @ '':'' @ Itoa count) cs) '' ''"
proof -
  let ?f = "\<lambda>(code, count) s. (if s \<noteq> [] then s @ '' '' else s) @ Itoa code @ '':'' @ Itoa count"
  let ?g = "\<lambda>(code, count). Itoa code @ '':'' @ Itoa count"
  have "fold ?f cs s = Join (s # map ?g cs) '' ''" if "s \<noteq> []" for s cs
    using that
  proof (induction cs arbitrary: s)
    case (Cons x cs)
    obtain code count where x: "x = (code, count)" by fastforce
    show ?case using Cons.IH [of "s @ '' '' @ ?g x"] Cons.prems by (cases cs) (simp_all add: x)
  qed simp
  moreover obtain code count where "hd cs = (code, count)" by fastforce
  ultimately show ?thesis by (cases cs) (auto simp: codeStr_def)
qed

end
