(* ===== verification/Cache_Compress.thy ===== *)
theory Cache_Compress
  imports Cache_Middleware
begin

text \<open>
  The cache with what surrounds it in a service's chain: the compression middleware, which is
  mounted inside the cache and whose \<^verbatim>\<open>Vary\<close> header the cache sees first, and concurrent
  requests of other users, which \<^verbatim>\<open>singleflight\<close> lets share one upstream call.
\<close>

section \<open>An upstream that varies on a header, and one that answers per user\<close>

definition with_header :: "string \<Rightarrow> string \<Rightarrow> request \<Rightarrow> request" where
  "with_header k v r = r\<lparr>r_Header := header_Set k v (r_Header r)\<rparr>"

definition page :: request where
  "page = simple_request ''GET'' ''/page'' []"

definition lang_handler :: "unit handler" where
  "lang_handler h r s =
     ((plain_reply [HeaderAdd ''Vary'' ''Accept-Language''] 200
         [header_Get (r_Header r) ''Accept-Language''], Returned_ok), s)"

definition user_handler :: "unit handler" where
  "user_handler h r s =
     ((plain_reply [HeaderSet ''Cache-Control'' ''private''] 200
         [header_Get (r_Header r) ''Authorization''], Returned_ok), s)"

lemma header_keys:
  "canonical_key ''Accept-Language'' = ''Accept-Language''"
  "canonical_key ''Accept-Encoding'' = ''Accept-Encoding''"
  by code_simp+

lemmas keys = canonical_keys header_keys

lemma page_headers [simp]:
  "r_Method (with_header k v page) = ''GET''" "r_Path (with_header k v page) = ''/page''"
  "r_RawQuery (with_header k v page) = []"
  "header_Get (r_Header (with_header k v page)) k' = (if canonical_key k' = canonical_key k then v else [])"
  by (simp_all add: with_header_def page_def simple_request_def header_Get_Set)
    (simp add: header_Get_def empty_header_def)

lemma page_looks_up:
  assumes "canonical_key k \<noteq> ''Cache-Control''"
  shows "looks_up (with_header k v page)"
  using assms by (simp add: looks_up_def bypasses_def keys parseCacheControl_def)

definition lang_cw :: "bool \<Rightarrow> string \<Rightarrow> captureWriter" where
  "lang_cw compressed lang =
     \<lparr>cap_status = 200,
      cap_header = fold header_op ((if compressed then [HeaderAdd ''Vary'' ''Accept-Encoding''] else []) @
         [HeaderAdd ''Vary'' ''Accept-Language'']) empty_header,
      cap_body = lang\<rparr>"

lemma lang_header_Get:
  "header_Get (cap_header (lang_cw cmp lang)) k =
     (if canonical_key k = ''Vary'' then (if cmp then ''Accept-Encoding'' else ''Accept-Language'') else [])"
  by (simp add: lang_cw_def header_Get_def header_Add_def empty_header_def keys)

lemma lang_vary_of: "vary_of (lang_cw cmp lang) = [if cmp then ''Accept-Encoding'' else ''Accept-Language'']"
proof -
  have "parseVary ''Accept-Encoding'' = ([''Accept-Encoding''], False)"
    "parseVary ''Accept-Language'' = ([''Accept-Language''], False)"
    by code_simp+
  then show ?thesis by (simp add: vary_of_def lang_header_Get keys)
qed

lemma lang_cacheable:
  assumes "canonical_key k \<noteq> ''Authorization''"
  shows "captured_cacheable (lang_cw cmp lang) (with_header k v page)"
proof -
  have "\<not> snd (parseVary ''Accept-Encoding'')" "\<not> snd (parseVary ''Accept-Language'')"
    by code_simp+
  with assms show ?thesis
    by (simp add: captured_cacheable_def cacheableResponse_def lang_header_Get keys parseCacheControl_def)
      (simp add: lang_cw_def)
qed

lemma lang_capture:
  "fold capture_op (fst (fst (lang_handler empty_header (with_header ''Accept-Language'' lang page) ())))
     new_captureWriter = lang_cw False lang"
  by (simp add: lang_handler_def capture_plain_reply lang_cw_def keys)

lemma lang_compressed:
  "Compress det gz n lang_handler empty_header (with_header ''Accept-Language'' lang page) () =
     ((plain_reply [HeaderAdd ''Vary'' ''Accept-Encoding'', HeaderAdd ''Vary'' ''Accept-Language''] 200 [lang],
       Returned_ok), ())"
proof -
  have "\<not> clientAcceptsGzip []" by code_simp
  then show ?thesis by (simp add: Compress_def lang_handler_def plain_reply_def keys)
qed

lemma lang_served:
  "rw_body (served (serveFromCache (with_header ''Accept-Language'' l page)
     (stored_entry sha256 ttl t (lang_cw cmp lang)))) = lang"
  using served_writeRaw [of new_rwriter 200]
  by (simp add: serveFromCache_def keys stored_entry_def lang_cw_def served_def Let_def new_rwriter_def
      body_allowed_def)

lemma lang_expires:
  "e_ExpiresAt (stored_entry sha256 ttl t (lang_cw cmp lang)) = t + ttl"
  by (simp add: stored_entry_def lang_header_Get keys cache_ttl_def parseCacheControl_def Let_def)

section \<open>Properties\<close>

text \<open>
  C37: compression hides the upstream's Vary header from the cache. \<open>Compress\<close> adds
  \<^verbatim>\<open>Vary: Accept-Encoding\<close> before the upstream's own \<^verbatim>\<open>Vary\<close>, and the cache reads the first value
  only. A response that the upstream says varies on the language is then served to a client
  of another language.
\<close>
theorem compression_hides_vary:
  "\<exists>ops1 ops2 c1 c2.
     Cache zero_sha (\<lambda>_. 0) 60 (\<lambda>_. None) (Compress det gz n lang_handler) empty_header
       (with_header ''Accept-Language'' ''en'' page) (new_cache 10 100, ()) = ((ops1, Returned_ok), (c1, ())) \<and>
     Cache zero_sha (\<lambda>_. 5) 60 (\<lambda>_. None) (Compress det gz n lang_handler) empty_header
       (with_header ''Accept-Language'' ''fr'' page) (c1, ()) = ((ops2, Returned_ok), (c2, ())) \<and>
     rw_body (served ops2) = ''en''"
proof -
  let ?en = "with_header ''Accept-Language'' ''en'' page" and ?fr = "with_header ''Accept-Language'' ''fr'' page"
  let ?ops = "plain_reply [HeaderAdd ''Vary'' ''Accept-Encoding'', HeaderAdd ''Vary'' ''Accept-Language''] 200 [''en'']"
  have cap: "fold capture_op ?ops new_captureWriter = lang_cw True ''en''"
    by (simp add: capture_plain_reply lang_cw_def)
  have key: "buildKey ?fr (vary_of (lang_cw True ''en'')) = buildKey ?en (vary_of (lang_cw True ''en''))"
    by (simp add: lang_vary_of buildKey_def keys)
  from miss_then_hit [of ?en ?fr "\<lambda>_. 0" "()" "new_cache 10 100" "NewLRU 10 100" "\<lambda>_. None"
      "Compress det gz n lang_handler" ?ops "()" "\<lambda>_. 5" "()" zero_sha 60 empty_header "\<lambda>_. None"
      "Compress det gz n lang_handler" empty_header]
  have "\<exists>c1 c2. Cache zero_sha (\<lambda>_. 0) 60 (\<lambda>_. None) (Compress det gz n lang_handler) empty_header ?en
        (new_cache 10 100, ()) =
          ((serveFromCache ?en (stored_entry zero_sha 60 0 (lang_cw True ''en'')), Returned_ok), (c1, ())) \<and>
      Cache zero_sha (\<lambda>_. 5) 60 (\<lambda>_. None) (Compress det gz n lang_handler) empty_header ?fr (c1, ()) =
          ((serveFromCache ?fr (stored_entry zero_sha 60 0 (lang_cw True ''en'')), Returned_ok), (c2, ()))"
    using key by (simp add: cap page_looks_up keys new_cache_misses new_cache_inv lang_compressed lang_cacheable
        lang_expires) (simp add: new_cache_def NewLRU_def lang_cw_def)
  then show ?thesis using lang_served by blast
qed

text \<open>
  C38: concurrent users share a private response. A request that joins the call in flight of
  another request with the same key is given that request's captured response even if it must
  not be shared: the key does not contain the credentials, so a user's \<^verbatim>\<open>private\<close> answer is sent
  to another user.
\<close>
theorem singleflight_shares_private_response:
  "let alice = with_header ''Authorization'' ''alice'' page; bob = with_header ''Authorization'' ''bob'' page;
       c = new_cache 10 100;
       res = fst (fillCache zero_sha (\<lambda>_. 0) user_handler 60 alice (c, ()))
   in lookup_key c alice = lookup_key c bob \<and>
      (\<exists>ops c'. Cache zero_sha (\<lambda>_. 0) 60 (\<lambda>k. if k = lookup_key c alice then Some res else None)
         user_handler empty_header bob (c, ()) = ((ops, Returned_ok), (c', ())) \<and>
        rw_body (served ops) = ''alice'')"
proof -
  let ?a = "with_header ''Authorization'' ''alice'' page" and ?b = "with_header ''Authorization'' ''bob'' page"
  let ?c = "new_cache 10 100"
  let ?hs = "[HeaderSet ''Cache-Control'' ''private'']"
  let ?cw = "\<lparr>cap_status = 200, cap_header = fold header_op ?hs empty_header, cap_body = ''alice''\<rparr>"
  have key: "lookup_key ?c ?a = lookup_key ?c ?b"
    by (simp add: lookup_key_def new_cache_def newVaryState_def headersFor_def buildKey_def)
  have up: "user_handler empty_header ?a () = ((plain_reply ?hs 200 [''alice''], Returned_ok), ())"
    by (simp add: user_handler_def)
  have cap: "fold capture_op (plain_reply ?hs 200 [''alice'']) new_captureWriter = ?cw"
    by (simp add: capture_plain_reply)
  have "\<not> captured_cacheable ?cw ?a"
    by (simp add: captured_cacheable_def cacheableResponse_def header_Get_Set private_parse)
  then have res: "fst (fillCache zero_sha (\<lambda>_. 0) user_handler 60 ?a (?c, ())) =
      Inr (SfRaw 200 (cap_header ?cw) ''alice'')"
    using fillCache_returned [of user_handler ?a "()" "plain_reply ?hs 200 [''alice'']" "()", OF up]
    unfolding cap by simp
  have "Cache zero_sha (\<lambda>_. 0) 60
      (\<lambda>k. if k = lookup_key ?c ?a then Some (Inr (SfRaw 200 (cap_header ?cw) ''alice'')) else None)
      user_handler empty_header ?b (?c, ()) =
      ((writeRaw 200 (cap_header ?cw) ''alice'', Returned_ok), (?c\<lparr>c_lru := NewLRU 10 100\<rparr>, ()))"
    using page_looks_up [of "''Authorization''" "''bob''"] key
    by (subst Cache_follow [of ?b "\<lambda>_. 0" "()" ?c "NewLRU 10 100" _
        "Inr (SfRaw 200 (cap_header ?cw) ''alice'')"])
      (simp_all add: looks_up_def keys new_cache_misses led_reply_def deliver_def)
  moreover have "rw_body (served (writeRaw 200 (cap_header ?cw) ''alice'')) = ''alice''"
    using served_writeRaw [of new_rwriter 200]
    by (simp add: served_def Let_def new_rwriter_def body_allowed_def)
  ultimately show ?thesis unfolding Let_def res using key by blast
qed

end
