(* ===== verification/Object_Pool.thy ===== *)
theory Object_Pool
  imports Cache_Middleware Compress
begin

text \<open>
  The pools \<^verbatim>\<open>captureBufPool\<close> and \<^verbatim>\<open>gzipWriterPool\<close>, both a \<^verbatim>\<open>sync.Pool\<close> whose objects go from request
  to request. \<open>Cache_Middleware\<close> and \<open>Compress\<close> give every request an object of its own; here the
  objects live in a store, a request holds the address of one, and requests run at the same
  time. What a request gets is shown to be what it would get from an object of its own.
\<close>

section \<open>A pool and its users\<close>

text \<open>
  A user of the pool runs a list of commands on a private state and the object it holds, and
  then takes its result. \<open>Aborted\<close> is a user whose handler panicked: the deferred \<^verbatim>\<open>Put\<close> returns
  its object as it is.
\<close>

datatype ('q, 'l, 'c, 'r) pool_user =
    Pending 'q "'c list"
  | Using nat 'l "'c list" "'c list"
  | Finished "'c list" 'r
  | Aborted

record ('q, 'l, 'o, 'c, 'r) pool_state =
  po_heap :: "nat \<Rightarrow> 'o"
  po_free :: "nat set"
  po_next :: nat
  po_users :: "nat \<Rightarrow> ('q, 'l, 'c, 'r) pool_user"

text \<open>
  What is particular to a pool: a new object, what is done to an object that was taken from the
  pool, the private state at the start, the effect of a command, and the result.
\<close>

record ('q, 'l, 'o, 'c, 'r) pool_spec =
  ps_New :: 'o
  ps_acquire :: "'o \<Rightarrow> 'o"
  ps_local :: "'q \<Rightarrow> 'l"
  ps_exec :: "'c \<Rightarrow> 'l \<times> 'o \<Rightarrow> 'l \<times> 'o"
  ps_result :: "'l \<times> 'o \<Rightarrow> 'r"

inductive pool_step ::
  "('q, 'l, 'o, 'c, 'r) pool_spec \<Rightarrow> ('q, 'l, 'o, 'c, 'r) pool_state \<Rightarrow> ('q, 'l, 'o, 'c, 'r) pool_state \<Rightarrow> bool" for ps where
  get_new: "po_users s i = Pending q cs \<Longrightarrow> a = po_next s \<Longrightarrow>
    pool_step ps s (s\<lparr>po_heap := (po_heap s)(a := ps_acquire ps (ps_New ps)), po_next := Suc a,
      po_users := (po_users s)(i := Using a (ps_local ps q) [] cs)\<rparr>)"
| get: "po_users s i = Pending q cs \<Longrightarrow> a \<in> po_free s \<Longrightarrow>
    pool_step ps s (s\<lparr>po_heap := (po_heap s)(a := ps_acquire ps (po_heap s a)), po_free := po_free s - {a},
      po_users := (po_users s)(i := Using a (ps_local ps q) [] cs)\<rparr>)"
| exec: "po_users s i = Using a l done (c # rest) \<Longrightarrow> ps_exec ps c (l, po_heap s a) = (l', x) \<Longrightarrow>
    pool_step ps s (s\<lparr>po_heap := (po_heap s)(a := x),
      po_users := (po_users s)(i := Using a l' (done @ [c]) rest)\<rparr>)"
| put: "po_users s i = Using a l done [] \<Longrightarrow>
    pool_step ps s (s\<lparr>po_free := insert a (po_free s),
      po_users := (po_users s)(i := Finished done (ps_result ps (l, po_heap s a)))\<rparr>)"
| panic: "po_users s i = Using a l done rest \<Longrightarrow>
    pool_step ps s (s\<lparr>po_free := insert a (po_free s), po_users := (po_users s)(i := Aborted)\<rparr>)"
| collect: "a \<in> po_free s \<Longrightarrow> pool_step ps s (s\<lparr>po_free := po_free s - {a}\<rparr>)"

inductive pool_reachable ::
  "('q, 'l, 'o, 'c, 'r) pool_spec \<Rightarrow> (nat \<Rightarrow> 'q \<times> 'c list) \<Rightarrow> ('q, 'l, 'o, 'c, 'r) pool_state \<Rightarrow> bool" for ps progs where
  start: "pool_reachable ps progs \<lparr>po_heap = heap, po_free = {}, po_next = 0, po_users = (\<lambda>i. Pending (fst (progs i)) (snd (progs i)))\<rparr>"
| step: "pool_reachable ps progs s \<Longrightarrow> pool_step ps s s' \<Longrightarrow> pool_reachable ps progs s'"

section \<open>Every object has one owner\<close>

definition run_on :: "('q, 'l, 'o, 'c, 'r) pool_spec \<Rightarrow> 'q \<Rightarrow> 'c list \<Rightarrow> 'o \<Rightarrow> 'l \<times> 'o" where
  "run_on ps q cs x = fold (ps_exec ps) cs (ps_local ps q, ps_acquire ps x)"

fun user_ok ::
  "('q, 'l, 'o, 'c, 'r) pool_spec \<Rightarrow> (nat \<Rightarrow> 'o) \<Rightarrow> 'q \<times> 'c list \<Rightarrow> ('q, 'l, 'c, 'r) pool_user \<Rightarrow> bool" where
  "user_ok ps heap p (Pending q cs) \<longleftrightarrow> p = (q, cs)"
| "user_ok ps heap p (Using a l done rest) \<longleftrightarrow>
     done @ rest = snd p \<and> (\<exists>x. (l, heap a) = run_on ps (fst p) done x)"
| "user_ok ps heap p (Finished done r) \<longleftrightarrow>
     done = snd p \<and> (\<exists>x. r = ps_result ps (run_on ps (fst p) done x))"
| "user_ok ps heap p Aborted \<longleftrightarrow> True"

fun holds :: "('q, 'l, 'c, 'r) pool_user \<Rightarrow> nat option" where
  "holds (Using a l done rest) = Some a"
| "holds _ = None"

definition pool_inv ::
  "('q, 'l, 'o, 'c, 'r) pool_spec \<Rightarrow> (nat \<Rightarrow> 'q \<times> 'c list) \<Rightarrow> ('q, 'l, 'o, 'c, 'r) pool_state \<Rightarrow> bool" where
  "pool_inv ps progs s \<longleftrightarrow>
     po_free s \<subseteq> {..<po_next s} \<and>
     (\<forall>i a. holds (po_users s i) = Some a \<longrightarrow> a < po_next s \<and> a \<notin> po_free s) \<and>
     (\<forall>i j a. holds (po_users s i) = Some a \<longrightarrow> holds (po_users s j) = Some a \<longrightarrow> i = j) \<and>
     (\<forall>i. user_ok ps (po_heap s) (progs i) (po_users s i))"

lemma user_ok_other:
  assumes "user_ok ps heap cs u" "holds u \<noteq> Some a"
  shows "user_ok ps (heap(a := x)) cs u"
  using assms by (cases u) auto

lemma pool_inv_user:
  assumes "pool_inv ps progs s" "\<And>j. j \<noteq> i \<Longrightarrow> holds (po_users s j) \<noteq> Some a"
    and "user_ok ps ((po_heap s)(a := x)) (progs i) u" "holds u = Some a \<or> holds u = None"
    and "free \<subseteq> {..<n}" "po_next s \<le> n" "holds u = Some a \<Longrightarrow> a < n \<and> a \<notin> free"
    and "free \<subseteq> insert a (po_free s)"
  shows "pool_inv ps progs (s\<lparr>po_heap := (po_heap s)(a := x), po_free := free, po_next := n,
    po_users := (po_users s)(i := u)\<rparr>)"
proof -
  have "user_ok ps ((po_heap s)(a := x)) (progs j) (po_users s j)" if "j \<noteq> i" for j
    using assms(1,2) that by (intro user_ok_other) (auto simp: pool_inv_def)
  moreover have "b < n \<and> b \<notin> free" if "j \<noteq> i" "holds (po_users s j) = Some b" for j b
    using assms(1,2,6,8) that by (fastforce simp: pool_inv_def)
  ultimately show ?thesis
    using assms by (auto simp: pool_inv_def)
qed

lemma pool_inv_owner:
  assumes "pool_inv ps progs s" "holds (po_users s i) = Some a"
  shows "j \<noteq> i \<Longrightarrow> holds (po_users s j) \<noteq> Some a" "a < po_next s" "a \<notin> po_free s" "po_free s \<subseteq> {..<po_next s}"
  using assms by (auto simp: pool_inv_def)

text \<open>A user gives its object back, with a result or after a panic.\<close>

lemma pool_inv_release:
  assumes "pool_inv ps progs s" "holds (po_users s i) = Some a" "holds u = None" "user_ok ps (po_heap s) (progs i) u"
  shows "pool_inv ps progs (s\<lparr>po_free := insert a (po_free s), po_users := (po_users s)(i := u)\<rparr>)"
proof -
  have "pool_inv ps progs (s\<lparr>po_heap := (po_heap s)(a := po_heap s a), po_free := insert a (po_free s),
      po_next := po_next s, po_users := (po_users s)(i := u)\<rparr>)"
    using pool_inv_owner [OF assms(1,2)] assms(3,4) by (intro pool_inv_user [OF assms(1)]) auto
  then show ?thesis by simp
qed

lemma pool_inv_step:
  assumes "pool_step ps s s'" "pool_inv ps progs s"
  shows "pool_inv ps progs s'"
proof -
  have ok: "user_ok ps (po_heap s) (progs i) (po_users s i)" for i
    using assms(2) by (simp add: pool_inv_def)
  have free: "po_free s \<subseteq> {..<po_next s}" "b \<in> po_free s \<Longrightarrow> holds (po_users s j) \<noteq> Some b"
    "holds (po_users s j) = Some b \<Longrightarrow> b < po_next s" for j b using assms(2) by (auto simp: pool_inv_def)
  show ?thesis
    using assms(1)
  proof cases
    case (get_new i q cs a)
    then have "pool_inv ps progs (s\<lparr>po_heap := (po_heap s)(a := ps_acquire ps (ps_New ps)), po_free := po_free s,
        po_next := Suc a, po_users := (po_users s)(i := Using a (ps_local ps q) [] cs)\<rparr>)"
      using ok [of i] free by (intro pool_inv_user [OF assms(2)]) (fastforce simp: run_on_def)+
    with get_new show ?thesis by simp
  next
    case (get i q cs a)
    then have "pool_inv ps progs (s\<lparr>po_heap := (po_heap s)(a := ps_acquire ps (po_heap s a)),
        po_free := po_free s - {a}, po_next := po_next s, po_users := (po_users s)(i := Using a (ps_local ps q) [] cs)\<rparr>)"
      using ok [of i] free by (intro pool_inv_user [OF assms(2)]) (auto simp: run_on_def)
    with get show ?thesis by simp
  next
    case (exec i a l "done" c rest l' x)
    then have own: "holds (po_users s i) = Some a" by simp
    from ok [of i] exec obtain y where "(l, po_heap s a) = run_on ps (fst (progs i)) done y" "done @ c # rest = snd (progs i)" by auto
    with exec(3) have "(l', x) = run_on ps (fst (progs i)) (done @ [c]) y" "(done @ [c]) @ rest = snd (progs i)" by (auto simp: run_on_def)
    then have "pool_inv ps progs (s\<lparr>po_heap := (po_heap s)(a := x), po_free := po_free s,
        po_next := po_next s, po_users := (po_users s)(i := Using a l' (done @ [c]) rest)\<rparr>)"
      using pool_inv_owner [OF assms(2) own] by (intro pool_inv_user [OF assms(2)]) auto
    with exec show ?thesis by simp
  next
    case (put i a l "done")
    with ok [of i] show ?thesis by (auto intro!: pool_inv_release [OF assms(2)])
  next
    case (panic i a l "done" rest)
    then show ?thesis by (auto intro!: pool_inv_release [OF assms(2)])
  next
    case (collect a)
    with assms(2) show ?thesis by (auto simp: pool_inv_def)
  qed
qed

lemma pool_reachable_inv: "pool_reachable ps progs s \<Longrightarrow> pool_inv ps progs s"
proof (induction rule: pool_reachable.induct)
  case (start heap)
  then show ?case by (simp add: pool_inv_def)
next
  case (step s s')
  then show ?case by (simp add: pool_inv_step)
qed

text \<open>Nothing keeps a user that holds an object from finishing, and its object is then free.\<close>

lemma pool_user_finishes:
  assumes "pool_reachable ps progs s" "po_users s i = Using a l done rest"
  shows "\<exists>s'. pool_reachable ps progs s' \<and> a \<in> po_free s' \<and> po_next s' = po_next s \<and>
    po_users s' = (po_users s)(i := Finished (done @ rest) (ps_result ps (fold (ps_exec ps) rest (l, po_heap s a))))"
  using assms
proof (induction rest arbitrary: s l "done")
  case Nil
  then show ?case
    using pool_reachable.step [OF Nil(1) pool_step.put [OF Nil(2)]]
    by (intro exI [of _ "s\<lparr>po_free := insert a (po_free s),
        po_users := (po_users s)(i := Finished done (ps_result ps (l, po_heap s a)))\<rparr>"]) simp
next
  case (Cons c rest)
  obtain l' x where c: "ps_exec ps c (l, po_heap s a) = (l', x)" by fastforce
  show ?case
    using Cons.IH [OF pool_reachable.step [OF Cons.prems(1) pool_step.exec [OF Cons.prems(2) c]], of l' "done @ [c]"] c
    by (simp add: fun_upd_same del: fun_upd_apply)
qed

lemma pool_user_gets_new:
  assumes "pool_reachable ps progs s" "po_users s i = Pending q cs"
  shows "\<exists>s'. pool_reachable ps progs s' \<and> po_next s \<in> po_free s' \<and> po_next s' = Suc (po_next s) \<and>
    po_users s' = (po_users s)(i := Finished cs (ps_result ps (run_on ps q cs (ps_New ps))))"
  using pool_user_finishes [OF pool_reachable.step [OF assms(1) pool_step.get_new [OF assms(2) refl]],
      of i "po_next s" "ps_local ps q" "[]" cs]
  by (simp add: run_on_def)

lemma pool_user_gets:
  assumes "pool_reachable ps progs s" "po_users s i = Pending q cs" "a \<in> po_free s"
  shows "\<exists>s'. pool_reachable ps progs s' \<and> a \<in> po_free s' \<and> po_next s' = po_next s \<and>
    po_users s' = (po_users s)(i := Finished cs (ps_result ps (run_on ps q cs (po_heap s a))))"
  using pool_user_finishes [OF pool_reachable.step [OF assms(1) pool_step.get [OF assms(2,3)]],
      of i a "ps_local ps q" "[]" cs]
  by (simp add: run_on_def)

text \<open>Two users, the second of which gets the object the first has used: no other was made.\<close>

lemma pool_reused:
  assumes "progs 0 = (q, cs)" "progs 1 = (q', cs')"
  shows "\<exists>s x. pool_reachable ps progs s \<and> po_next s = 1 \<and>
    po_users s 0 = Finished cs (ps_result ps (run_on ps q cs (ps_New ps))) \<and>
    po_users s 1 = Finished cs' (ps_result ps (run_on ps q' cs' x))"
proof -
  obtain s where s: "pool_reachable ps progs s" "0 \<in> po_free s" "po_next s = 1" "po_users s 1 = Pending q' cs'"
    "po_users s 0 = Finished cs (ps_result ps (run_on ps q cs (ps_New ps)))"
    using pool_user_gets_new [OF pool_reachable.start [of ps progs "\<lambda>_. ps_New ps"], of 0 q cs] assms by fastforce
  from pool_user_gets [OF s(1,4,2)] s(3,5) show ?thesis by fastforce
qed

section \<open>Objects that forget\<close>

text \<open>
  What makes an object fit for a pool: the result of a user does not depend on what the object
  went through before it was acquired.
\<close>

locale pooled_object =
  fixes ps :: "('q, 'l, 'o, 'c, 'r) pool_spec"
  assumes forgets: "ps_result ps (run_on ps q cs x) = ps_result ps (run_on ps q cs y)"
begin

lemma private_result:
  assumes "pool_reachable ps progs s" "progs i = (q, cs)" "po_users s i = Finished cs' r"
  shows "cs' = cs" "r = ps_result ps (run_on ps q cs x)"
proof -
  from pool_reachable_inv [OF assms(1)] have "user_ok ps (po_heap s) (progs i) (po_users s i)" by (simp add: pool_inv_def)
  with assms forgets show "cs' = cs" "r = ps_result ps (run_on ps q cs x)" by auto
qed

end

section \<open>The buffers of the cache\<close>

text \<open>
  A fill of the cache: the private part of its \<^verbatim>\<open>captureWriter\<close> is the status and the header, the
  pooled part the buffer, which is reset when it was acquired and copied at the end.
\<close>

fun capture_exec :: "wop \<Rightarrow> (int \<times> header) \<times> string \<Rightarrow> (int \<times> header) \<times> string" where
  "capture_exec (WriteHeader code) ((status, h), buf) = ((code, h), buf)"
| "capture_exec (Write b) ((status, h), buf) = ((if status = 0 then 200 else status, h), buf @ b)"
| "capture_exec op ((status, h), buf) = ((status, header_op op h), buf)"

definition captureBufPool :: "(unit, int \<times> header, string, wop, captureWriter) pool_spec" where
  "captureBufPool =
     \<lparr>ps_New = [], ps_acquire = (\<lambda>_. []), ps_local = (\<lambda>_. (0, empty_header)), ps_exec = capture_exec,
      ps_result = (\<lambda>((status, h), buf). \<lparr>cap_status = status, cap_header = h, cap_body = buf\<rparr>)\<rparr>"

lemma capture_exec_op:
  "ps_result captureBufPool (capture_exec op x) = capture_op op (ps_result captureBufPool x)"
  by (cases "(op, x)" rule: capture_exec.cases) (simp_all add: captureBufPool_def)

lemma capture_run: "ps_result captureBufPool (run_on captureBufPool q ops x) = fold capture_op ops new_captureWriter"
proof -
  have "ps_result captureBufPool (fold capture_exec ops y) = fold capture_op ops (ps_result captureBufPool y)" for y
    by (induction ops arbitrary: y) (simp_all add: capture_exec_op)
  moreover have "run_on captureBufPool q ops x = fold capture_exec ops ((0, empty_header), [])"
    by (simp add: run_on_def captureBufPool_def)
  ultimately show ?thesis by (simp add: captureBufPool_def new_captureWriter_def)
qed

interpretation capbuf: pooled_object captureBufPool
  by unfold_locales (simp add: capture_run)

section \<open>The gzip writers\<close>

text \<open>
  A compressed response: the private part is what was sent and the \<^verbatim>\<open>compressWriter\<close>, whose field
  \<open>cw_gz\<close> stands for the pooled writer. It is not reset when it is acquired, but before its first
  use.
\<close>

definition compress_exec ::
  "(string \<Rightarrow> string) \<Rightarrow> 'g gzip_writer \<Rightarrow> wop \<Rightarrow> (wop list \<times> 'g compressWriter) \<times> 'g \<Rightarrow>
   (wop list \<times> 'g compressWriter) \<times> 'g" where
  "compress_exec det gz op x =
     (case x of
        ((sent, cw), g) \<Rightarrow>
          (case cw_op det gz op (cw\<lparr>cw_gz := g\<rparr>) of (out, cw) \<Rightarrow> ((sent @ out, cw), cw_gz cw)))"

definition new_compressWriter :: "int \<Rightarrow> header \<Rightarrow> 'g \<Rightarrow> 'g compressWriter" where
  "new_compressWriter minSize h g =
     \<lparr>cw_header = h, cw_gz = g, cw_minSize = minSize, cw_wroteHead = False,
      cw_compress = False, cw_buf = [], cw_statusCode = 0\<rparr>"

definition gzipWriterPool ::
  "(string \<Rightarrow> string) \<Rightarrow> 'g gzip_writer \<Rightarrow> 'g \<Rightarrow> int \<Rightarrow>
   (header, wop list \<times> 'g compressWriter, 'g, wop, wop list) pool_spec" where
  "gzipWriterPool det gz discard minSize =
     \<lparr>ps_New = discard, ps_acquire = (\<lambda>g. g), ps_local = (\<lambda>h. ([], new_compressWriter minSize h discard)),
      ps_exec = compress_exec det gz,
      ps_result = (\<lambda>((sent, cw), g). sent @ finish gz (cw\<lparr>cw_gz := g\<rparr>))\<rparr>"

text \<open>Two writers that differ at most in a gzip writer that was not reset yet.\<close>

definition same_use :: "'g compressWriter \<Rightarrow> 'g compressWriter \<Rightarrow> bool" where
  "same_use cw cw' \<longleftrightarrow> cw'\<lparr>cw_gz := cw_gz cw\<rparr> = cw \<and> (cw_wroteHead cw \<and> cw_compress cw \<longrightarrow> cw' = cw) \<and>
     (cw_compress cw \<longrightarrow> cw_wroteHead cw)"

lemma same_use_op:
  assumes "same_use cw cw'" "cw_op det gz op cw = (out, cw1)"
  shows "\<exists>cw1'. cw_op det gz op cw' = (out, cw1') \<and> same_use cw1 cw1'"
proof (cases op)
  case (Write b)
  show ?thesis
    using assms by (cases cw; cases cw')
      (auto simp: Write same_use_def cw_Write_def decide_def flushBuffered_def Let_def split: prod.splits if_splits)
qed (use assms in \<open>cases cw; cases cw'; auto simp: same_use_def\<close>)+

lemma same_use_run:
  assumes "same_use cw cw'" "cw_run det gz ops cw = (out, cw1)"
  shows "\<exists>cw1'. cw_run det gz ops cw' = (out, cw1') \<and> same_use cw1 cw1'"
  using assms
proof (induction ops arbitrary: cw cw' out)
  case (Cons op ops)
  obtain o1 c1 o2 where 1: "cw_op det gz op cw = (o1, c1)" "cw_run det gz ops c1 = (o2, cw1)" "out = o1 @ o2"
    using Cons.prems(2) by (auto split: prod.splits)
  from same_use_op [OF Cons.prems(1) 1(1)] obtain c1' where 2: "cw_op det gz op cw' = (o1, c1')" "same_use c1 c1'" by blast
  from Cons.IH [OF 2(2) 1(2)] 1 2 show ?case by auto
qed simp

lemma same_use_finish: "same_use cw cw' \<Longrightarrow> finish gz cw' = finish gz cw"
  by (cases cw; cases cw') (auto simp: same_use_def finish_def flushBuffered_def Let_def)

lemma compress_run:
  assumes "cw_run det gz ops (cw\<lparr>cw_gz := g\<rparr>) = (out, cw1)"
  shows "\<exists>cw2. fold (compress_exec det gz) ops ((sent, cw), g) = ((sent @ out, cw2), cw_gz cw1) \<and>
    cw2\<lparr>cw_gz := cw_gz cw1\<rparr> = cw1"
  using assms
proof (induction ops arbitrary: cw g out sent)
  case (Cons op ops)
  obtain o1 c1 o2 where 1: "cw_op det gz op (cw\<lparr>cw_gz := g\<rparr>) = (o1, c1)" "cw_run det gz ops c1 = (o2, cw1)"
    "out = o1 @ o2" using Cons.prems by (auto split: prod.splits)
  then show ?case using Cons.IH [of "cw_gz c1" c1 o2 "sent @ o1"] by (simp add: compress_exec_def)
qed auto

lemma gzip_pool_run:
  assumes "cw_run det gz ops (new_compressWriter minSize h g) = (out, cw)"
  shows "ps_result (gzipWriterPool det gz discard minSize) (run_on (gzipWriterPool det gz discard minSize) h ops x) =
    out @ finish gz cw"
proof -
  have "same_use (new_compressWriter minSize h g) (new_compressWriter minSize h x)"
    by (simp add: same_use_def new_compressWriter_def)
  from same_use_run [OF this assms] obtain cw' where
    run: "cw_run det gz ops (new_compressWriter minSize h x) = (out, cw')" and fin: "same_use cw cw'" by blast
  have "new_compressWriter minSize h discard\<lparr>cw_gz := x\<rparr> = new_compressWriter minSize h x"
    by (simp add: new_compressWriter_def)
  with compress_run [of det gz ops x "new_compressWriter minSize h discard" out cw' "[]"] run
  obtain cw2 where "fold (compress_exec det gz) ops (([], new_compressWriter minSize h discard), x) =
      ((out, cw2), cw_gz cw')" "cw2\<lparr>cw_gz := cw_gz cw'\<rparr> = cw'" by auto
  then show ?thesis
    using same_use_finish [OF fin, of gz] by (simp add: run_on_def gzipWriterPool_def)
qed

interpretation gzpool: pooled_object "gzipWriterPool det gz discard minSize" for det gz discard minSize
proof
  fix h ops x y
  show "ps_result (gzipWriterPool det gz discard minSize) (run_on (gzipWriterPool det gz discard minSize) h ops x) =
      ps_result (gzipWriterPool det gz discard minSize) (run_on (gzipWriterPool det gz discard minSize) h ops y)"
    by (cases "cw_run det gz ops (new_compressWriter minSize h discard)") (simp add: gzip_pool_run)
qed

section \<open>A pooled object is as good as a new one\<close>

text \<open>
  C14: in every interleaving of fills that take their buffers from \<^verbatim>\<open>captureBufPool\<close>, return them, also
  when their handlers panic, and find them again, what a fill captured is its own response: the
  result of \<^verbatim>\<open>fillCache\<close>, the entry or the uncached answer, is built from exactly this status, header
  and body, and nothing of an earlier or concurrent response that used the same buffer.
\<close>
theorem pooled_buffer_is_private:
  assumes "pool_reachable captureBufPool progs s" "po_users s i = Finished ops' cw"
    and "next empty_header r st = ((ops, Returned_ok), st')" "snd (progs i) = ops"
  shows "fst (fillCache sha256 now next ttl r (c, st)) =
    Inr (if captured_cacheable cw r then SfEntry (stored_entry sha256 ttl (now st') cw)
         else SfRaw (cap_status cw) (cap_header cw) (cap_body cw))"
proof -
  obtain q where "progs i = (q, ops)" using assms(4) by (cases "progs i") auto
  from capbuf.private_result [OF assms(1) this assms(2)] have "cw = fold capture_op ops new_captureWriter"
    by (simp add: capture_run)
  then show ?thesis by (simp add: fillCache_returned [of "next", OF assms(3)])
qed

theorem pooled_buffer_is_private_witness:
  "\<exists>s. pool_reachable captureBufPool (\<lambda>i. ((), [Write (if i = 0 then ''secret'' else ''ok'')])) s \<and>
     po_next s = 1 \<and>
     po_users s 0 = Finished [Write ''secret''] \<lparr>cap_status = 200, cap_header = empty_header, cap_body = ''secret''\<rparr> \<and>
     po_users s 1 = Finished [Write ''ok''] \<lparr>cap_status = 200, cap_header = empty_header, cap_body = ''ok''\<rparr> \<and>
     fst (fillCache (\<lambda>_. []) (\<lambda>_. 0) (\<lambda>h r st. (([Write ''ok''], Returned_ok), st)) 60
       (simple_request ''GET'' ''/'' []) (new_cache 10 1000, ())) =
     Inr (SfEntry (stored_entry (\<lambda>_. []) 60 0 \<lparr>cap_status = 200, cap_header = empty_header, cap_body = ''ok''\<rparr>))"
proof -
  let ?progs = "\<lambda>i::nat. ((), [Write (if i = 0 then ''secret'' else ''ok'')])"
  let ?cw = "\<lambda>b. \<lparr>cap_status = 200, cap_header = empty_header, cap_body = b\<rparr>"
  have cw: "ps_result captureBufPool (run_on captureBufPool q [Write b] x) = ?cw b" for q b x
    by (simp add: capture_run new_captureWriter_def)
  obtain s where s: "pool_reachable captureBufPool ?progs s" "po_next s = 1"
    "po_users s 0 = Finished [Write ''secret''] (?cw ''secret'')" "po_users s 1 = Finished [Write ''ok''] (?cw ''ok'')"
    using pool_reused [of ?progs "()" "[Write ''secret'']" "()" "[Write ''ok'']" captureBufPool] by (auto simp: cw)
  have "captured_cacheable (?cw ''ok'') (simple_request ''GET'' ''/'' [])" by code_simp
  with pooled_buffer_is_private [OF s(1,4), of "\<lambda>h r st. (([Write ''ok''], Returned_ok), st)"
      "simple_request ''GET'' ''/'' []" "()" "[Write ''ok'']" "()" "\<lambda>_. []" "\<lambda>_. 0" 60 "new_cache 10 1000"] s
  show ?thesis by auto
qed

text \<open>
  C15: in every interleaving of responses that are compressed with writers of \<^verbatim>\<open>gzipWriterPool\<close>, a
  response sends what \<^verbatim>\<open>Compress\<close> makes of it with a gzip writer of its own, whatever the writer it
  got was left in, also by a handler that panicked before \<^verbatim>\<open>finish\<close> closed it.
\<close>
theorem pooled_gzip_writer_is_private:
  assumes "pool_reachable (gzipWriterPool det gz discard minSize) progs s" "po_users s i = Finished ops' sent"
    and "clientAcceptsGzip (header_Get (r_Header r) ''Accept-Encoding'')"
    and "next (header_op (HeaderAdd ''Vary'' ''Accept-Encoding'') h) r st = ((ops, Returned_ok), st')"
    and "progs i = (header_op (HeaderAdd ''Vary'' ''Accept-Encoding'') h, ops)"
  shows "Compress det gz minSize next h r st =
    ((HeaderAdd ''Vary'' ''Accept-Encoding'' # sent, Returned_ok), st')"
proof -
  let ?h = "header_op (HeaderAdd ''Vary'' ''Accept-Encoding'') h"
  obtain out cw where run: "cw_run det gz ops (new_compressWriter minSize ?h (gz_Reset gz)) = (out, cw)"
    by fastforce
  from gzpool.private_result [OF assms(1,5,2)] gzip_pool_run [OF run] have "sent = out @ finish gz cw" by simp
  with run assms(3,4) show ?thesis by (simp add: Compress_def new_compressWriter_def Let_def)
qed

theorem pooled_gzip_writer_is_private_witness:
  "\<exists>s sent. pool_reachable (gzipWriterPool (\<lambda>_. ''text/plain'') identity_codec () 4)
       (\<lambda>i. (header_op (HeaderAdd ''Vary'' ''Accept-Encoding'') empty_header, [Write ''abcdef''])) s \<and>
     po_next s = 1 \<and> po_users s 1 = Finished [Write ''abcdef''] sent \<and>
     Compress (\<lambda>_. ''text/plain'') identity_codec 4 (\<lambda>h r s. (([Write ''abcdef''], Returned_ok), s)) empty_header
       ((simple_request ''GET'' ''/'' [])\<lparr>r_Header := header_Set ''Accept-Encoding'' ''gzip'' empty_header\<rparr>) () =
     ((HeaderAdd ''Vary'' ''Accept-Encoding'' # sent, Returned_ok), ())"
proof -
  let ?h = "header_op (HeaderAdd ''Vary'' ''Accept-Encoding'') empty_header"
  let ?r = "(simple_request ''GET'' ''/'' [])\<lparr>r_Header := header_Set ''Accept-Encoding'' ''gzip'' empty_header\<rparr>"
  obtain s sent where s: "pool_reachable (gzipWriterPool (\<lambda>_. ''text/plain'') identity_codec () 4) (\<lambda>i. (?h, [Write ''abcdef''])) s"
    "po_next s = 1" "po_users s 1 = Finished [Write ''abcdef''] sent"
    using pool_reused [of "\<lambda>i. (?h, [Write ''abcdef''])" ?h "[Write ''abcdef'']" ?h "[Write ''abcdef'']"
        "gzipWriterPool (\<lambda>_. ''text/plain'') identity_codec () 4"] by auto
  have "clientAcceptsGzip (header_Get (r_Header ?r) ''Accept-Encoding'')" by code_simp
  from pooled_gzip_writer_is_private [OF s(1,3) this, of "\<lambda>h r s. (([Write ''abcdef''], Returned_ok), s)" empty_header
      "()" "[Write ''abcdef'']" "()"] s
  show ?thesis by auto
qed

end
