(* ===== verification/Proxy_Concurrent.thy ===== *)
theory Proxy_Concurrent
  imports Proxy
begin

text \<open>
  Many requests inside one proxy at the same time. \<open>Proxy\<close> runs \<^verbatim>\<open>ServeHTTP\<close> from start to end;
  here each goroutine is in some phase of it, and a step moves one of them across one access to
  shared state: an increment of the round-robin counter, a call of \<^verbatim>\<open>Allow\<close>, and the callback that
  records the outcome. Between steps the world may change in any way in which the clock does
  not go back. The history of the calls on the breakers is kept beside the state, so that what
  \<open>Circuit_Breaker\<close> shows of sequences of calls can be said of the proxy.
\<close>

section \<open>Goroutines\<close>

text \<open>
  A request has arrived; it is inside \<^verbatim>\<open>Next\<close> with some attempts left; an upstream was chosen; it
  was admitted and waits for the upstream; a response 101 was recorded and is about to be
  refused; or it was answered.
\<close>

datatype px_phase =
    Arrived request
  | Drawing request nat
  | Chosen request string
  | Waiting request
  | Refusing request
  | Answered reply

record 'w px_state =
  px_proxy :: proxy_handler
  px_phases :: "nat \<Rightarrow> px_phase"
  px_history :: "(string \<times> breaker_event) list"
  px_world :: 'w

definition px_target :: "request \<Rightarrow> string" where
  "px_target r = the (ctx_target (r_ctx r))"

inductive px_step :: "'w proxy_env \<Rightarrow> 'w px_state \<Rightarrow> 'w px_state \<Rightarrow> bool" for env where
  enter: "px_phases s g = Arrived r \<Longrightarrow>
    px_step env s (s\<lparr>px_phases := (px_phases s)(g := Drawing r (length (rr_urls (ph_lb (px_proxy s)))))\<rparr>)"
| draw: "px_phases s g = Drawing r (Suc n) \<Longrightarrow> lb = ph_lb (px_proxy s) \<Longrightarrow> u = pick (rr_urls lb) (rr_counter lb) \<Longrightarrow>
    px_step env s (s\<lparr>px_proxy := (px_proxy s)\<lparr>ph_lb := lb\<lparr>rr_counter := rr_counter lb + 1\<rparr>\<rparr>,
      px_phases := (px_phases s)(g := if pe_IsHealthy env (px_world s) u then Chosen r u else Drawing r n)\<rparr>)"
| give_up: "px_phases s g = Drawing r 0 \<Longrightarrow>
    px_step env s (s\<lparr>px_phases := (px_phases s)
      (g := Answered (writeJSON 503 [(''error'', ''no healthy upstreams'')], Returned_ok))\<rparr>)"
| no_breaker: "px_phases s g = Chosen r u \<Longrightarrow> mustGetBreaker (px_proxy s) u = Inl v \<Longrightarrow>
    px_step env s (s\<lparr>px_phases := (px_phases s)(g := Answered ([], Panicked v))\<rparr>)"
| admit: "px_phases s g = Chosen r u \<Longrightarrow> mustGetBreaker (px_proxy s) u = Inr b \<Longrightarrow>
    now = pe_now env (px_world s) \<Longrightarrow> breaker_Allow now b = (None, b') \<Longrightarrow>
    px_step env s (s\<lparr>px_proxy := set_breaker u b' (px_proxy s),
      px_phases := (px_phases s)(g := Waiting (r\<lparr>r_ctx := newTargetContext (r_ctx r) u\<rparr>)),
      px_history := px_history s @ [(u, EvAllow now)]\<rparr>)"
| reject: "px_phases s g = Chosen r u \<Longrightarrow> mustGetBreaker (px_proxy s) u = Inr b \<Longrightarrow>
    now = pe_now env (px_world s) \<Longrightarrow> breaker_Allow now b = (Some err, b') \<Longrightarrow>
    px_step env s (s\<lparr>px_proxy := set_breaker u b' (px_proxy s),
      px_phases := (px_phases s)(g := Answered (writeJSON 503
        [(''error'', ''circuit breaker is open''), (''upstream'', u)], Returned_ok)),
      px_history := px_history s @ [(u, EvAllow now)]\<rparr>)"
| response: "px_phases s g = Waiting r \<Longrightarrow>
    ModifyResponse env (r_ctx r) (rs_StatusCode (resp :: response)) (px_proxy s, px_world s) = Inr (p', w') \<Longrightarrow>
    px_step env s (s\<lparr>px_proxy := p',
      px_phases := (px_phases s)(g := if rs_StatusCode resp = 101 then Refusing r
        else Answered (HeaderAddAll (removeHopByHopHeaders (rs_Header resp)) #
          WriteHeader (rs_StatusCode resp) # map Write (rs_chunks resp),
          if rs_copyFails resp then Panicked ErrAbortHandler else Returned_ok)),
      px_history := px_history s @ [(px_target r,
        if rs_StatusCode resp \<ge> 500 then EvFailure (pe_now env (px_world s)) else EvSuccess)],
      px_world := w'\<rparr>)"
| response_panic: "px_phases s g = Waiting r \<Longrightarrow>
    ModifyResponse env (r_ctx r) (rs_StatusCode (resp :: response)) (px_proxy s, px_world s) = Inl v \<Longrightarrow>
    px_step env s (s\<lparr>px_phases := (px_phases s)(g := Answered ([], Panicked v))\<rparr>)"
| failure: "px_phases s g = Waiting r \<or> px_phases s g = Refusing r \<and> err = other_error \<Longrightarrow>
    ErrorHandler env (r_ctx r) err (px_proxy s, px_world s) = (reply, (p', w')) \<Longrightarrow>
    px_step env s (s\<lparr>px_proxy := p',
      px_phases := (px_phases s)(g := Answered reply),
      px_history := px_history s @
        (if er_MaxBytes err then [] else [(px_target r, EvFailure (pe_now env (px_world s)))]),
      px_world := w'\<rparr>)"
| elapse: "pe_now env (px_world s) \<le> pe_now env w' \<Longrightarrow> px_step env s (s\<lparr>px_world := w'\<rparr>)"

definition px_start :: "string list \<Rightarrow> (string \<rightharpoonup> breaker) \<Rightarrow> (nat \<Rightarrow> request) \<Rightarrow> 'w \<Rightarrow> 'w px_state" where
  "px_start urls breakers rs w =
     \<lparr>px_proxy = NewHandler (NewRoundRobin urls) breakers, px_phases = (\<lambda>g. Arrived (rs g)), px_history = [], px_world = w\<rparr>"

inductive px_reachable ::
  "'w proxy_env \<Rightarrow> string list \<Rightarrow> (string \<rightharpoonup> breaker) \<Rightarrow> 'w px_state \<Rightarrow> bool" for env urls breakers where
  start: "px_reachable env urls breakers (px_start urls breakers rs w)"
| step: "px_reachable env urls breakers s \<Longrightarrow> px_step env s s' \<Longrightarrow> px_reachable env urls breakers s'"

section \<open>What every reachable state satisfies\<close>

definition events_of :: "string \<Rightarrow> (string \<times> breaker_event) list \<Rightarrow> breaker_event list" where
  "events_of u hist = map snd (filter (\<lambda>e. fst e = u) hist)"

definition in_flight :: "string \<Rightarrow> (nat \<Rightarrow> px_phase) \<Rightarrow> nat set" where
  "in_flight u gs = {g. \<exists>r. gs g = Waiting r \<and> ctx_target (r_ctx r) = Some u}"

fun phase_ok :: "string list \<Rightarrow> px_phase \<Rightarrow> bool" where
  "phase_ok urls (Drawing r n) \<longleftrightarrow> n \<le> length urls"
| "phase_ok urls (Chosen r u) \<longleftrightarrow> u \<in> set urls"
| "phase_ok urls (Waiting r) \<longleftrightarrow> (\<exists>u\<in>set urls. ctx_target (r_ctx r) = Some u)"
| "phase_ok urls (Refusing r) \<longleftrightarrow> (\<exists>u\<in>set urls. ctx_target (r_ctx r) = Some u)"
| "phase_ok urls (Answered reply) \<longleftrightarrow> snd reply = Returned_ok \<or> snd reply = Panicked ErrAbortHandler"
| "phase_ok urls _ \<longleftrightarrow> True"

text \<open>The breaker of \<open>u\<close> has seen the calls \<open>evs\<close>, none of them later than \<open>now\<close>.\<close>

definition breaker_saw :: "breaker \<Rightarrow> breaker_event list \<Rightarrow> time \<Rightarrow> nat set \<Rightarrow> breaker option \<Rightarrow> bool" where
  "breaker_saw b0 evs now flying b \<longleftrightarrow>
     b = Some (breaker_run evs b0) \<and> sorted (event_times evs @ [now]) \<and>
     finite flying \<and> card flying \<le> length (admissions evs b0)"

definition px_inv :: "'w proxy_env \<Rightarrow> string list \<Rightarrow> (string \<rightharpoonup> breaker) \<Rightarrow> 'w px_state \<Rightarrow> bool" where
  "px_inv env urls breakers s \<longleftrightarrow>
     rr_urls (ph_lb (px_proxy s)) = urls \<and> (\<forall>g. phase_ok urls (px_phases s g)) \<and>
     (\<forall>u\<in>set urls. breaker_saw (the (breakers u)) (events_of u (px_history s)) (pe_now env (px_world s))
        (in_flight u (px_phases s)) (ph_breakers (px_proxy s) u))"

lemma admissions_append:
  "admissions (evs @ [ev]) b = admissions evs b @ admissions [ev] (breaker_run evs b)"
  by (induction evs b rule: admissions.induct) simp_all

lemma event_times_append [simp]: "event_times (xs @ ys) = event_times xs @ event_times ys"
  by (induction xs rule: event_times.induct) simp_all

lemma events_of_append [simp]: "events_of u (hist @ [(v, ev)]) = events_of u hist @ (if v = u then [ev] else [])"
  by (simp add: events_of_def)

lemma breaker_saw_later:
  assumes "breaker_saw b0 evs now flying b" "now \<le> now'" "flying' \<subseteq> flying"
  shows "breaker_saw b0 evs now' flying' b"
proof -
  have "card flying' \<le> card flying" "finite flying'"
    using assms by (auto simp: breaker_saw_def intro: card_mono finite_subset)
  with assms show ?thesis by (fastforce simp: breaker_saw_def sorted_append)
qed

lemma breaker_saw_record:
  assumes "breaker_saw b0 evs now flying (Some b)" "flying' \<subseteq> flying" "now \<le> now'"
    and "ev = EvSuccess \<or> ev = EvFailure now"
  shows "breaker_saw b0 (evs @ [ev]) now' flying' (Some (breaker_step ev b))"
proof -
  have "card flying' \<le> card flying" "finite flying'"
    using assms by (auto simp: breaker_saw_def intro: card_mono finite_subset)
  with assms show ?thesis by (fastforce simp: breaker_saw_def sorted_append admissions_append)
qed

lemma breaker_saw_Allow:
  assumes "breaker_saw b0 evs now flying (Some b)" "breaker_Allow now b = (err, b')"
    and "flying' \<subseteq> (if err = None then insert g flying else flying)"
  shows "breaker_saw b0 (evs @ [EvAllow now]) now flying' (Some b')"
proof -
  have fin: "finite flying" and b: "b = breaker_run evs b0" using assms(1) by (auto simp: breaker_saw_def)
  have "card flying' \<le> card (if err = None then insert g flying else flying)" "finite flying'"
    using fin assms(3) by (auto intro: card_mono finite_subset split: if_splits)
  moreover have "card (insert g flying) \<le> card flying + 1" using fin by (simp add: card_insert_if)
  ultimately show ?thesis
    using assms(1,2) b by (auto simp: breaker_saw_def sorted_append admissions_append split: if_splits)
qed

lemma in_flight_upd:
  "in_flight u (gs(g := ph)) =
     (if \<exists>r. ph = Waiting r \<and> ctx_target (r_ctx r) = Some u then insert g (in_flight u gs) else in_flight u gs - {g})"
  by (auto simp: in_flight_def)

lemma px_inv_breaker:
  assumes "px_inv env urls breakers s" "u \<in> set urls"
  obtains b where "ph_breakers (px_proxy s) u = Some b"
    "breaker_saw (the (breakers u)) (events_of u (px_history s)) (pe_now env (px_world s))
       (in_flight u (px_phases s)) (Some b)"
  using assms by (auto simp: px_inv_def breaker_saw_def)

text \<open>A step that leaves the breakers alone and lets no request out.\<close>

lemma px_inv_move:
  assumes "px_inv env urls breakers s" "phase_ok urls ph" "\<And>r. ph \<noteq> Waiting r"
    and "rr_urls lb = urls" "pe_now env (px_world s) \<le> pe_now env w'"
  shows "px_inv env urls breakers (s\<lparr>px_proxy := (px_proxy s)\<lparr>ph_lb := lb\<rparr>,
    px_phases := (px_phases s)(g := ph), px_world := w'\<rparr>)"
  using assms by (auto simp: px_inv_def in_flight_upd intro: breaker_saw_later)

lemma px_inv_phase:
  assumes "px_inv env urls breakers s" "phase_ok urls ph" "\<And>r. ph \<noteq> Waiting r"
  shows "px_inv env urls breakers (s\<lparr>px_phases := (px_phases s)(g := ph)\<rparr>)"
  using assms by (auto simp: px_inv_def in_flight_upd intro: breaker_saw_later)

text \<open>A step with a call on the breaker of \<open>u\<close>.\<close>

lemma px_inv_call:
  assumes "px_inv env urls breakers s" "phase_ok urls ph" "\<And>r. ph = Waiting r \<Longrightarrow> ctx_target (r_ctx r) = Some u"
    and "pe_now env (px_world s) \<le> pe_now env w'"
    and "breaker_saw (the (breakers u)) (events_of u (px_history s) @ [ev]) (pe_now env w')
      (in_flight u ((px_phases s)(g := ph))) (Some b)"
  shows "px_inv env urls breakers (s\<lparr>px_proxy := set_breaker u b (px_proxy s), px_phases := (px_phases s)(g := ph),
    px_history := px_history s @ [(u, ev)], px_world := w'\<rparr>)"
proof -
  have "breaker_saw (the (breakers v)) (events_of v (px_history s)) (pe_now env w')
      (in_flight v ((px_phases s)(g := ph))) (ph_breakers (px_proxy s) v)" if "v \<in> set urls" "v \<noteq> u" for v
  proof (rule breaker_saw_later [OF _ assms(4)])
    show "in_flight v ((px_phases s)(g := ph)) \<subseteq> in_flight v (px_phases s)"
      using assms(3) that(2) by (auto simp: in_flight_upd)
  qed (use assms(1) that(1) in \<open>simp add: px_inv_def\<close>)
  with assms(1,2,5) show ?thesis by (auto simp: px_inv_def)
qed

lemma px_inv_record:
  assumes "px_inv env urls breakers s" "phase_ok urls ph" "\<And>r. ph \<noteq> Waiting r" "u \<in> set urls"
    and "pe_now env (px_world s) \<le> pe_now env w'" "ph_breakers (px_proxy s) u = Some b"
    and "ev = EvSuccess \<or> ev = EvFailure (pe_now env (px_world s))"
  shows "px_inv env urls breakers (s\<lparr>px_proxy := set_breaker u (breaker_step ev b) (px_proxy s),
    px_phases := (px_phases s)(g := ph), px_history := px_history s @ [(u, ev)], px_world := w'\<rparr>)"
  using assms(3,5)
proof (intro px_inv_call [OF assms(1,2)])
  have "breaker_saw (the (breakers u)) (events_of u (px_history s)) (pe_now env (px_world s))
      (in_flight u (px_phases s)) (Some b)"
    using assms(1,4,6) by (auto simp: px_inv_def)
  then show "breaker_saw (the (breakers u)) (events_of u (px_history s) @ [ev]) (pe_now env w')
      (in_flight u ((px_phases s)(g := ph))) (Some (breaker_step ev b))"
    using assms(3,5,7) by (intro breaker_saw_record) (auto simp: in_flight_upd)
qed auto

definition log_clock_ok :: "'w proxy_env \<Rightarrow> bool" where
  "log_clock_ok env \<longleftrightarrow> (\<forall>err w. pe_now env w \<le> pe_now env (pe_logError env err w))"

lemma px_inv_answer:
  assumes "px_inv env urls breakers s" "log_clock_ok env" "ctx_target (r_ctx r) = Some u" "u \<in> set urls"
    and "ErrorHandler env (r_ctx r) err (px_proxy s, px_world s) = (reply, (p', w'))"
  shows "px_inv env urls breakers (s\<lparr>px_proxy := p', px_phases := (px_phases s)(g := Answered reply),
      px_history := px_history s @
        (if er_MaxBytes err then [] else [(px_target r, EvFailure (pe_now env (px_world s)))]),
      px_world := w'\<rparr>)"
proof -
  obtain b where b: "ph_breakers (px_proxy s) u = Some b" by (rule px_inv_breaker [OF assms(1,4)])
  note eh = assms(5) [unfolded ErrorHandler_known [OF assms(3) b]]
  have clock: "pe_now env (px_world s) \<le> pe_now env (pe_logError env err (px_world s))"
    using assms(2) by (simp add: log_clock_ok_def)
  show ?thesis
  proof (cases "er_MaxBytes err")
    case True
    with eh px_inv_move [OF assms(1), of "Answered reply" "ph_lb (px_proxy s)" "px_world s" g] assms(1)
    show ?thesis by (auto simp: px_inv_def)
  next
    case False
    with eh px_inv_record [OF assms(1), of "Answered reply" u w' b "EvFailure (pe_now env (px_world s))" g] b clock assms(3,4)
    show ?thesis by (auto simp: px_target_def)
  qed
qed

lemma px_inv_Allow:
  assumes "px_inv env urls breakers s" "u \<in> set urls" "mustGetBreaker (px_proxy s) u = Inr b"
    and "breaker_Allow (pe_now env (px_world s)) b = (err, b')" "phase_ok urls ph"
    and "if err = None then \<exists>r. ph = Waiting r \<and> ctx_target (r_ctx r) = Some u else \<forall>r. ph \<noteq> Waiting r"
  shows "px_inv env urls breakers (s\<lparr>px_proxy := set_breaker u b' (px_proxy s), px_phases := (px_phases s)(g := ph),
    px_history := px_history s @ [(u, EvAllow (pe_now env (px_world s)))]\<rparr>)"
proof -
  have "breaker_saw (the (breakers u)) (events_of u (px_history s)) (pe_now env (px_world s))
      (in_flight u (px_phases s)) (Some b)"
    using assms(3) by (auto intro: px_inv_breaker [OF assms(1,2)] simp: mustGetBreaker_def split: option.splits)
  then have "breaker_saw (the (breakers u)) (events_of u (px_history s) @ [EvAllow (pe_now env (px_world s))])
      (pe_now env (px_world s)) (in_flight u ((px_phases s)(g := ph))) (Some b')"
    using assms(6)
    by (intro breaker_saw_Allow [OF _ assms(4), where g = g]) (auto simp: in_flight_upd split: if_splits)
  from px_inv_call [OF assms(1,5) _ order_refl this] assms(6) show ?thesis by (auto split: if_splits)
qed

lemma px_inv_response:
  fixes resp :: response
  assumes "px_inv env urls breakers s" "u \<in> set urls" "ctx_target (r_ctx r) = Some u"
    and "ModifyResponse env (r_ctx r) (rs_StatusCode resp) (px_proxy s, px_world s) = Inr (p', w')"
    and "phase_ok urls ph" "\<And>r. ph \<noteq> Waiting r"
  shows "px_inv env urls breakers (s\<lparr>px_proxy := p', px_phases := (px_phases s)(g := ph),
    px_history := px_history s @ [(px_target r,
      if rs_StatusCode resp \<ge> 500 then EvFailure (pe_now env (px_world s)) else EvSuccess)], px_world := w'\<rparr>)"
proof -
  obtain b where b: "ph_breakers (px_proxy s) u = Some b" by (rule px_inv_breaker [OF assms(1,2)])
  let ?ev = "if rs_StatusCode resp \<ge> 500 then EvFailure (pe_now env (px_world s)) else EvSuccess"
  have mod: "p' = set_breaker u (breaker_step ?ev b) (px_proxy s)" "w' = px_world s"
    using assms(4) by (auto simp: ModifyResponse_known [OF assms(3) b])
  show ?thesis
    unfolding mod px_target_def assms(3) option.sel
    by (rule px_inv_record [OF assms(1,5,6,2) _ b]) auto
qed

lemma px_inv_draw:
  assumes "px_inv env urls breakers s" "length urls < 2 ^ 64" "Suc n \<le> length urls"
    and "lb = ph_lb (px_proxy s)" "u = pick (rr_urls lb) (rr_counter lb)"
  shows "px_inv env urls breakers (s\<lparr>px_proxy := (px_proxy s)\<lparr>ph_lb := lb\<lparr>rr_counter := rr_counter lb + 1\<rparr>\<rparr>,
    px_phases := (px_phases s)(g := if healthy then Chosen r u else Drawing r n)\<rparr>)"
proof -
  have lb: "rr_urls lb = urls" using assms(1,4) by (simp add: px_inv_def)
  have "urls \<noteq> []" using assms(3) by auto
  then have "u \<in> set urls" using assms(5) pick_member [OF _ assms(2)] by (simp add: lb)
  then show ?thesis
    using px_inv_move [OF assms(1), of "if healthy then Chosen r u else Drawing r n"
        "lb\<lparr>rr_counter := rr_counter lb + 1\<rparr>" "px_world s" g] assms(3) by (simp add: lb)
qed

lemma px_inv_step:
  assumes "px_step env s s'" "px_inv env urls breakers s" "log_clock_ok env" "length urls < 2 ^ 64"
  shows "px_inv env urls breakers s'"
proof -
  have lb: "rr_urls (ph_lb (px_proxy s)) = urls" and ok: "phase_ok urls (px_phases s g)" for g
    using assms(2) by (simp_all add: px_inv_def)
  show ?thesis
    using assms(1)
  proof cases
    case (enter g r)
    show ?thesis unfolding enter(1) by (rule px_inv_phase [OF assms(2)]) (simp_all add: lb)
  next
    case (draw g r n lb' u)
    then have "Suc n \<le> length urls" using ok [of g] by simp
    with draw px_inv_draw [OF assms(2,4)] show ?thesis by simp
  next
    case (give_up g r)
    show ?thesis unfolding give_up(1) by (rule px_inv_phase [OF assms(2)]) simp_all
  next
    case (no_breaker g r u v)
    with ok [of g] have "u \<in> set urls" by simp
    then obtain b where "ph_breakers (px_proxy s) u = Some b" by (rule px_inv_breaker [OF assms(2)])
    with no_breaker(3) show ?thesis by (simp add: mustGetBreaker_def)
  next
    case (admit g r u b now b')
    with ok [of g] have "u \<in> set urls" by simp
    from px_inv_Allow [OF assms(2) this admit(3) admit(5) [unfolded admit(4)],
        of "Waiting (r\<lparr>r_ctx := newTargetContext (r_ctx r) u\<rparr>)" g] this
    show ?thesis unfolding admit(1,4) by (simp add: newTargetContext_def)
  next
    case (reject g r u b now err b')
    with ok [of g] have "u \<in> set urls" by simp
    from px_inv_Allow [OF assms(2) this reject(3) reject(5) [unfolded reject(4)]]
    show ?thesis unfolding reject(1,4) by simp
  next
    case (response g r resp p' w')
    then obtain u where u: "u \<in> set urls" "ctx_target (r_ctx r) = Some u" using ok [of g] by auto
    show ?thesis
      unfolding response(1) by (rule px_inv_response [OF assms(2) u response(3)]) (use u in auto)
  next
    case (response_panic g r resp v)
    then obtain u where u: "u \<in> set urls" "ctx_target (r_ctx r) = Some u" using ok [of g] by auto
    obtain b where "ph_breakers (px_proxy s) u = Some b" by (rule px_inv_breaker [OF assms(2) u(1)])
    with response_panic(3) u(2) show ?thesis by (simp add: ModifyResponse_known)
  next
    case (failure g r err reply p' w')
    then obtain u where u: "u \<in> set urls" "ctx_target (r_ctx r) = Some u" using ok [of g] by auto
    show ?thesis unfolding failure(1) by (rule px_inv_answer [OF assms(2,3) u(2,1) failure(3)])
  next
    case (elapse w')
    with assms(2) show ?thesis by (auto simp: px_inv_def intro: breaker_saw_later)
  qed
qed

lemma px_inv_start:
  assumes "set urls \<subseteq> dom breakers"
  shows "px_inv env urls breakers (px_start urls breakers rs w)"
  using assms
  by (auto simp: px_inv_def px_start_def NewHandler_def NewRoundRobin_def breaker_saw_def events_of_def in_flight_def)

lemma px_reachable_inv:
  assumes "px_reachable env urls breakers s" "set urls \<subseteq> dom breakers" "log_clock_ok env" "length urls < 2 ^ 64"
  shows "px_inv env urls breakers s"
  using assms(1)
proof induction
  case (start rs w)
  show ?case by (rule px_inv_start [OF assms(2)])
next
  case (step s s')
  show ?case by (rule px_inv_step [OF step.hyps(2) step.IH assms(3,4)])
qed

section \<open>Properties\<close>


text \<open>A request that is admitted and waits for its upstream.\<close>

lemma demo_in_flight:
  fixes r :: request
  assumes "px_phases s g = Arrived r" "ph_lb (px_proxy s) = NewRoundRobin [u]"
    and "ph_breakers (px_proxy s) u = Some b" "br_state b = stateClosed"
    and "px_reachable (demo_env res) urls breakers s"
  shows "\<exists>s'. px_reachable (demo_env res) urls breakers s' \<and> g \<in> in_flight u (px_phases s')"
proof -
  let ?env = "demo_env res"
  have "pick [u] c = u" for c by (simp add: pick_eq)
  note simps = NewRoundRobin_def demo_env_def this
  define s1 where "s1 = s\<lparr>px_phases := (px_phases s)(g := Drawing r (length (rr_urls (ph_lb (px_proxy s)))))\<rparr>"
  have r1: "px_reachable ?env urls breakers s1"
    unfolding s1_def by (rule px_reachable.step [OF assms(5) px_step.enter [OF assms(1)]])
  have p1: "px_phases s1 g = Drawing r (Suc 0)" "px_proxy s1 = px_proxy s" by (simp_all add: s1_def assms(2) simps)
  define s2 where "s2 = s1\<lparr>px_proxy := (px_proxy s)\<lparr>ph_lb := \<lparr>rr_urls = [u], rr_counter = 1\<rparr>\<rparr>,
    px_phases := (px_phases s1)(g := Chosen r u)\<rparr>"
  have "px_step ?env s1 s2"
    using px_step.draw [OF p1(1) refl refl, of ?env] by (simp add: s2_def p1(2) assms(2) simps)
  with r1 have r2: "px_reachable ?env urls breakers s2" by (rule px_reachable.step)
  have p2: "px_phases s2 g = Chosen r u" "mustGetBreaker (px_proxy s2) u = Inr b"
    by (simp_all add: s2_def mustGetBreaker_def assms(3))
  show ?thesis
    by (rule exI, rule conjI, rule px_reachable.step [OF r2 px_step.admit [OF p2 refl Allow_simps(1) [OF assms(4)]]])
      (simp add: in_flight_def newTargetContext_def)
qed


end
